theory Spec2Isabelle
  imports Main "HOL-Library.Word" "HOL-Library.Sublist"
begin

unbundle bit_operations_syntax

chapter \<open>USDT balance checker: a model of the query engine\<close>

text \<open>
  The theory follows the Go packages \<^verbatim>\<open>tron\<close> (address codec, rate limiter, API client)
  and \<^verbatim>\<open>core\<close> (API key manager, query manager).  A Go \<^verbatim>\<open>string\<close> is a byte
  sequence and is modelled by \<^typ>\<open>string\<close>; text outside ASCII is written as its UTF-8
  bytes.  A Go \<^verbatim>\<open>error\<close> built by \<^verbatim>\<open>errors.New\<close> is its message.
\<close>

section \<open>Definitions\<close>

subsection \<open>Bytes, errors and library functions of the address codec\<close>

type_synonym byte = "8 word"
type_synonym u32 = "32 word"

datatype error = errors_New string

fun Error :: "error \<Rightarrow> string" where
  "Error (errors_New s) = s"

text \<open>
  \<^verbatim>\<open>base58.Decode\<close> (btcutil): the characters are accumulated from the last one to the
  first as a big integer in radix 58; a character outside the alphabet makes the result
  the empty slice.  The bytes of the integer (\<^verbatim>\<open>big.Int.Bytes\<close>: big-endian, none for
  zero) follow one zero byte for each leading \<^verbatim>\<open>'1'\<close>.
\<close>

definition alphabet :: string where
  "alphabet = ''123456789ABCDEFGHJKLMNPQRSTUVWXYZabcdefghijkmnopqrstuvwxyz''"

definition b58 :: "char \<Rightarrow> nat" where
  "b58 c = (if c \<in> set alphabet then length (takeWhile (\<lambda>x. x \<noteq> c) alphabet) else 255)"

fun decode_loop :: "string \<Rightarrow> nat \<Rightarrow> nat \<Rightarrow> nat option" where
  "decode_loop [] answer j = Some answer"
| "decode_loop (c # cs) answer j =
     (if b58 c = 255 then None else decode_loop cs (answer + j * b58 c) (j * 58))"

function Bytes :: "nat \<Rightarrow> byte list" where
  "Bytes n = (if n = 0 then [] else Bytes (n div 256) @ [of_nat (n mod 256)])"
  by pat_completeness auto
termination
  by (relation "measure (\<lambda>n. n)") auto

definition Decode :: "string \<Rightarrow> byte list" where
  "Decode b =
     (case decode_loop (rev b) 0 1 of
        None \<Rightarrow> []
      | Some answer \<Rightarrow>
          (let tmpval = Bytes answer;
               numZeros = length (takeWhile (\<lambda>c. c = CHR ''1'') b)
           in replicate numZeros 0 @ tmpval))"

text \<open>\<^verbatim>\<open>hex.EncodeToString\<close>: two characters of the lowercase table for each byte.\<close>

definition hextable :: string where
  "hextable = ''0123456789abcdef''"

definition EncodeToString :: "byte list \<Rightarrow> string" where
  "EncodeToString src =
     concat (map (\<lambda>v. [hextable ! unat (drop_bit 4 v), hextable ! unat (v AND 0x0f)]) src)"

text \<open>The inverse direction, used to say what a hex string encodes.\<close>

definition fromHexChar :: "char \<Rightarrow> byte option" where
  "fromHexChar c =
     (if c \<in> set hextable then Some (of_nat (length (takeWhile (\<lambda>x. x \<noteq> c) hextable))) else None)"

fun DecodeString :: "string \<Rightarrow> byte list option" where
  "DecodeString [] = Some []"
| "DecodeString [c] = None"
| "DecodeString (c # d # s) =
     (case (fromHexChar c, fromHexChar d, DecodeString s) of
        (Some a, Some b, Some r) \<Rightarrow> Some ((push_bit 4 a OR b) # r)
      | _ \<Rightarrow> None)"

subsection \<open>SHA-256 (\<^verbatim>\<open>crypto/sha256\<close>, FIPS 180-4)\<close>

definition rotr :: "nat \<Rightarrow> u32 \<Rightarrow> u32" where
  "rotr n x = (drop_bit n x) OR (push_bit (32 - n) x)"

text \<open>The round constants, in the eight rows of the standard.\<close>

definition K256_rows :: "u32 list list" where
  "K256_rows =
     [[0x428a2f98, 0x71374491, 0xb5c0fbcf, 0xe9b5dba5, 0x3956c25b, 0x59f111f1, 0x923f82a4, 0xab1c5ed5],
      [0xd807aa98, 0x12835b01, 0x243185be, 0x550c7dc3, 0x72be5d74, 0x80deb1fe, 0x9bdc06a7, 0xc19bf174],
      [0xe49b69c1, 0xefbe4786, 0x0fc19dc6, 0x240ca1cc, 0x2de92c6f, 0x4a7484aa, 0x5cb0a9dc, 0x76f988da],
      [0x983e5152, 0xa831c66d, 0xb00327c8, 0xbf597fc7, 0xc6e00bf3, 0xd5a79147, 0x06ca6351, 0x14292967],
      [0x27b70a85, 0x2e1b2138, 0x4d2c6dfc, 0x53380d13, 0x650a7354, 0x766a0abb, 0x81c2c92e, 0x92722c85],
      [0xa2bfe8a1, 0xa81a664b, 0xc24b8b70, 0xc76c51a3, 0xd192e819, 0xd6990624, 0xf40e3585, 0x106aa070],
      [0x19a4c116, 0x1e376c08, 0x2748774c, 0x34b0bcb5, 0x391c0cb3, 0x4ed8aa4a, 0x5b9cca4f, 0x682e6ff3],
      [0x748f82ee, 0x78a5636f, 0x84c87814, 0x8cc70208, 0x90befffa, 0xa4506ceb, 0xbef9a3f7, 0xc67178f2]]"

definition K256 :: "u32 list" where
  "K256 = concat K256_rows"

type_synonym digest = "u32 \<times> u32 \<times> u32 \<times> u32 \<times> u32 \<times> u32 \<times> u32 \<times> u32"

definition init256 :: digest where
  "init256 = (0x6a09e667, 0xbb67ae85, 0x3c6ef372, 0xa54ff53a,
              0x510e527f, 0x9b05688c, 0x1f83d9ab, 0x5be0cd19)"

definition be32 :: "byte list \<Rightarrow> u32" where
  "be32 bs = foldl (\<lambda>acc b. push_bit 8 acc OR ucast b) 0 bs"

fun words16 :: "nat \<Rightarrow> byte list \<Rightarrow> u32 list" where
  "words16 0 p = []"
| "words16 (Suc n) p = be32 (take 4 p) # words16 n (drop 4 p)"

fun schedule :: "nat \<Rightarrow> u32 list \<Rightarrow> u32 list" where
  "schedule 0 w = w"
| "schedule (Suc n) w =
     (let i = length w;
          v1 = w ! (i - 2); v2 = w ! (i - 15);
          t1 = rotr 17 v1 XOR rotr 19 v1 XOR drop_bit 10 v1;
          t2 = rotr 7 v2 XOR rotr 18 v2 XOR drop_bit 3 v2
      in schedule n (w @ [t1 + w ! (i - 7) + t2 + w ! (i - 16)]))"

definition round256 :: "digest \<Rightarrow> u32 \<times> u32 \<Rightarrow> digest" where
  "round256 dig kw =
     (case dig of (a, b, c, d, e, f, g, h) \<Rightarrow> case kw of (k, w) \<Rightarrow>
        (let t1 = h + (rotr 6 e XOR rotr 11 e XOR rotr 25 e) + ((e AND f) XOR (NOT e AND g)) + k + w;
             t2 = (rotr 2 a XOR rotr 13 a XOR rotr 22 a) + ((a AND b) XOR (a AND c) XOR (b AND c))
         in (t1 + t2, a, b, c, d + t1, e, f, g)))"

definition add_digest :: "digest \<Rightarrow> digest \<Rightarrow> digest" where
  "add_digest x y =
     (case x of (a, b, c, d, e, f, g, h) \<Rightarrow> case y of (a', b', c', d', e', f', g', h') \<Rightarrow>
        (a + a', b + b', c + c', d + d', e + e', f + f', g + g', h + h'))"

definition block :: "digest \<Rightarrow> byte list \<Rightarrow> digest" where
  "block dig p = add_digest dig (foldl round256 dig (zip K256 (schedule 48 (words16 16 p))))"

definition pad :: "byte list \<Rightarrow> byte list" where
  "pad m = m @ [0x80] @ replicate ((64 - (length m + 9) mod 64) mod 64) 0
             @ map (\<lambda>i. ucast (drop_bit (56 - 8 * i) (push_bit 3 (of_nat (length m) :: 64 word))))
                 [0..<8]"

function blocks :: "digest \<Rightarrow> byte list \<Rightarrow> digest" where
  "blocks dig p = (if length p < 64 then dig else blocks (block dig (take 64 p)) (drop 64 p))"
  by pat_completeness auto
termination
  by (relation "measure (\<lambda>(d, p). length p)") auto

definition u32_bytes :: "u32 \<Rightarrow> byte list" where
  "u32_bytes x = [ucast (drop_bit 24 x), ucast (drop_bit 16 x), ucast (drop_bit 8 x), ucast x]"

definition digest_bytes :: "digest \<Rightarrow> byte list" where
  "digest_bytes x =
     (case x of (a, b, c, d, e, f, g, h) \<Rightarrow>
        u32_bytes a @ u32_bytes b @ u32_bytes c @ u32_bytes d @
        u32_bytes e @ u32_bytes f @ u32_bytes g @ u32_bytes h)"

definition Sum256 :: "byte list \<Rightarrow> byte list" where
  "Sum256 m = digest_bytes (blocks init256 (pad m))"

subsection \<open>\<^verbatim>\<open>tron/address.go\<close>\<close>

text \<open>The message of the codec's only error: "invalid TRON address".\<close>

definition msg_invalid_address :: string where
  "msg_invalid_address =
     [CHR 0xE6, CHR 0x97, CHR 0xA0, CHR 0xE6, CHR 0x95, CHR 0x88, CHR 0xE7, CHR 0x9A, CHR 0x84]
     @ '' TRON '' @ [CHR 0xE5, CHR 0x9C, CHR 0xB0, CHR 0xE5, CHR 0x9D, CHR 0x80]"

definition AddressToParameter :: "string \<Rightarrow> error + string" where
  "AddressToParameter address =
     (let decoded = Decode address in
      if length decoded < 21 then Inl (errors_New msg_invalid_address)
      else
        let addressBytes = take 20 (drop 1 decoded);
            param = replicate 12 0 @ addressBytes
        in Inr (EncodeToString param))"

text \<open>The loop over the four checksum bytes, leaving at the first difference.\<close>

function checksum_loop :: "nat \<Rightarrow> byte list \<Rightarrow> byte list \<Rightarrow> bool" where
  "checksum_loop i checkSum secondHash =
     (if i < 4 then
        (if checkSum ! i \<noteq> secondHash ! i then False
         else checksum_loop (Suc i) checkSum secondHash)
      else True)"
  by pat_completeness auto
termination
  by (relation "measure (\<lambda>(i, c, h). 4 - i)") auto

declare checksum_loop.simps [simp del]

definition ValidateAddress :: "string \<Rightarrow> bool" where
  "ValidateAddress address =
     (let decoded = Decode address in
      if length decoded \<noteq> 25 then False
      else
        let addrBytes = take 21 decoded;
            checkSum = drop 21 decoded;
            firstHash = Sum256 addrBytes;
            secondHash = Sum256 firstHash
        in checksum_loop 0 checkSum secondHash)"

definition AddressToHex :: "string \<Rightarrow> error + string" where
  "AddressToHex address =
     (let decoded = Decode address in
      if length decoded < 21 then Inl (errors_New msg_invalid_address)
      else
        let addressBytes = take 21 decoded
        in Inr (EncodeToString addressBytes))"

subsection \<open>\<^verbatim>\<open>core/query.go\<close>: results and statistics\<close>

record QueryResult =
  Address :: string
  Balance :: string
  Status :: string
  Error_text :: string

fun stats_loop :: "QueryResult list \<Rightarrow> nat \<times> nat \<Rightarrow> nat \<times> nat" where
  "stats_loop [] (success, failed) = (success, failed)"
| "stats_loop (r # rs) (success, failed) =
     (if Status r = ''success'' then stats_loop rs (success + 1, failed)
      else if Status r = ''error'' then stats_loop rs (success, failed + 1)
      else stats_loop rs (success, failed))"

definition GetStats :: "QueryResult list \<Rightarrow> nat \<times> nat \<times> nat" where
  "GetStats results =
     (let total = length results;
          (success, failed) = stats_loop results (0, 0)
      in (total, success, failed))"

subsection \<open>\<^verbatim>\<open>core\<close>: the API key manager (\<^verbatim>\<open>GetNextKey\<close>)\<close>

datatype panic = IndexOutOfRange | DivideByZero | NilDereference

definition msg_no_key :: string where
  "msg_no_key = [CHR 0xE6, CHR 0xB2, CHR 0xA1, CHR 0xE6, CHR 0x9C, CHR 0x89, CHR 0xE5, CHR 0x8F, CHR 0xAF,
                 CHR 0xE7, CHR 0x94, CHR 0xA8, CHR 0xE7, CHR 0x9A, CHR 0x84] @ '' API Key''"

definition msg_key_limit :: string where
  "msg_key_limit = ''API Key '' @ [CHR 0xE5, CHR 0xB7, CHR 0xB2, CHR 0xE8, CHR 0xBE, CHR 0xBE, CHR 0xE5, CHR 0x88,
                 CHR 0xB0, CHR 0xE4, CHR 0xBD, CHR 0xBF, CHR 0xE7, CHR 0x94, CHR 0xA8, CHR 0xE4, CHR 0xB8, CHR 0x8A,
                 CHR 0xE9, CHR 0x99, CHR 0x90]"

definition msg_all_limit :: string where
  "msg_all_limit = [CHR 0xE6, CHR 0x89, CHR 0x80, CHR 0xE6, CHR 0x9C, CHR 0x89] @ '' API Key '' @
                [CHR 0xE9, CHR 0x83, CHR 0xBD, CHR 0xE5, CHR 0xB7, CHR 0xB2, CHR 0xE8, CHR 0xBE, CHR 0xBE, CHR 0xE5,
                 CHR 0x88, CHR 0xB0, CHR 0xE4, CHR 0xBD, CHR 0xBF, CHR 0xE7, CHR 0x94, CHR 0xA8, CHR 0xE4, CHR 0xB8,
                 CHR 0x8A, CHR 0xE9, CHR 0x99, CHR 0x90]"

record APIKeyInfo =
  Key :: string
  Used :: int
  MaxLimit :: int
  Enabled :: bool

record APIKeyManager =
  keys :: "APIKeyInfo list"
  current :: nat
  totalUsed :: int

definition select_key :: "APIKeyManager \<Rightarrow> nat \<Rightarrow> APIKeyManager" where
  "select_key m idx =
     m\<lparr>keys := (keys m)[idx := (keys m ! idx)\<lparr>Used := Used (keys m ! idx) + 1\<rparr>],
       totalUsed := totalUsed m + 1\<rparr>"

function scan :: "APIKeyManager \<Rightarrow> nat \<Rightarrow> nat \<Rightarrow> panic + (error + string) \<times> APIKeyManager" where
  "scan m startIndex i =
     (if i < length (keys m) then
        (if current m < length (keys m) then
           (let keyInfo = keys m ! current m in
            if Enabled keyInfo \<and> Used keyInfo < MaxLimit keyInfo then
              Inr (Inr (Key keyInfo),
                   (select_key m (current m))\<lparr>current := (current m + 1) mod length (keys m)\<rparr>)
            else
              (let m' = m\<lparr>current := (current m + 1) mod length (keys m)\<rparr> in
               if current m' = startIndex then Inr (Inl (errors_New msg_all_limit), m')
               else scan m' startIndex (i + 1)))
         else Inl IndexOutOfRange)
      else Inr (Inl (errors_New msg_all_limit), m))"
  by pat_completeness auto
termination
  by (relation "measure (\<lambda>(m, s, i). length (keys m) - i)") auto

declare scan.simps [simp del]

definition GetNextKey :: "APIKeyManager \<Rightarrow> panic + (error + string) \<times> APIKeyManager" where
  "GetNextKey m =
     (if length (keys m) = 0 then Inr (Inl (errors_New msg_no_key), m)
      else if length (keys m) = 1 then
        (let keyInfo = keys m ! 0 in
         if Enabled keyInfo \<and> Used keyInfo < MaxLimit keyInfo then
           Inr (Inr (Key keyInfo), select_key m 0)
         else Inr (Inl (errors_New msg_key_limit), m))
      else scan m (current m) 0)"

text \<open>A caller making \<open>n\<close> calls in a row, collecting what each call returned.\<close>

fun GetNextKey_times :: "nat \<Rightarrow> APIKeyManager \<Rightarrow> panic + (error + string) list \<times> APIKeyManager" where
  "GetNextKey_times 0 m = Inr ([], m)"
| "GetNextKey_times (Suc n) m =
     (case GetNextKey m of
        Inl p \<Rightarrow> Inl p
      | Inr (r, m') \<Rightarrow>
          (case GetNextKey_times n m' of
             Inl p \<Rightarrow> Inl p
           | Inr (rs, m'') \<Rightarrow> Inr (r # rs, m'')))"

definition eligible :: "APIKeyInfo \<Rightarrow> bool" where
  "eligible k \<longleftrightarrow> Enabled k \<and> Used k < MaxLimit k"

text \<open>Two concrete pools.\<close>

definition pool2 :: APIKeyManager where
  "pool2 = \<lparr>keys = [\<lparr>Key = ''k1'', Used = 5, MaxLimit = 5, Enabled = True\<rparr>,
                    \<lparr>Key = ''k2'', Used = 1, MaxLimit = 5, Enabled = True\<rparr>],
             current = 0, totalUsed = 6\<rparr>"

definition pool1 :: APIKeyManager where
  "pool1 = \<lparr>keys = [\<lparr>Key = ''k1'', Used = 0, MaxLimit = 3, Enabled = True\<rparr>], current = 0, totalUsed = 0\<rparr>"

subsection \<open>\<^verbatim>\<open>tron\<close>: the rate limiter\<close>

text \<open>
  Times and durations are nanosecond counts (\<^verbatim>\<open>time.Duration\<close> is an \<^verbatim>\<open>int64\<close>); they and
  the \<^verbatim>\<open>int\<close> fields are modelled by \<^typ>\<open>int\<close>, which agrees with the machine integers
  as long as no intermediate value leaves the 64-bit range.  Go's integer division
  truncates towards zero and panics on a zero divisor.
\<close>

definition quot :: "int \<Rightarrow> int \<Rightarrow> int" where
  "quot a b = (if (a < 0) = (b < 0) then \<bar>a\<bar> div \<bar>b\<bar> else - (\<bar>a\<bar> div \<bar>b\<bar>))"

record RateLimiter =
  rate :: int
  interval :: int
  tokens :: int
  maxTokens :: int
  lastRefill :: int

definition NewRateLimiter :: "int \<Rightarrow> int \<Rightarrow> int \<Rightarrow> RateLimiter" where
  "NewRateLimiter r iv now =
     \<lparr>rate = r, interval = iv, tokens = r, maxTokens = r, lastRefill = now\<rparr>"

text \<open>The refill at the start of \<^verbatim>\<open>Wait\<close>, at clock reading \<open>now\<close>.\<close>

definition refill :: "int \<Rightarrow> RateLimiter \<Rightarrow> panic + RateLimiter" where
  "refill now rl =
     (let elapsed = now - lastRefill rl in
      if elapsed > 0 then
        (if interval rl = 0 then Inl DivideByZero
         else
           let tokensToAdd = quot elapsed (interval rl) * rate rl in
           if tokensToAdd > 0 then
             (let t = tokens rl + tokensToAdd
              in Inr (rl\<lparr>tokens := (if t > maxTokens rl then maxTokens rl else t),
                         lastRefill := now\<rparr>))
           else Inr rl)
      else Inr rl)"

text \<open>
  The branch taken when no token is left: one sleep of \<^verbatim>\<open>interval / rate\<close>, then a second
  refill at the clock reading \<open>now'\<close> taken after the sleep.  The token count is assigned
  (not increased by) the number of tokens to add.
\<close>

definition refill_after_sleep :: "int \<Rightarrow> RateLimiter \<Rightarrow> panic + RateLimiter" where
  "refill_after_sleep now' rl =
     (if rate rl = 0 then Inl DivideByZero
      else
        let waitTime = quot (interval rl) (rate rl);
            elapsed = now' - lastRefill rl in
        if elapsed > 0 then
          (if interval rl = 0 then Inl DivideByZero
           else
             let tokensToAdd = quot elapsed (interval rl) * rate rl
             in Inr (rl\<lparr>tokens := (if tokensToAdd > maxTokens rl then maxTokens rl else tokensToAdd),
                        lastRefill := now'\<rparr>))
        else Inr rl)"

definition Wait :: "int \<Rightarrow> int \<Rightarrow> RateLimiter \<Rightarrow> panic + RateLimiter" where
  "Wait now now' rl =
     (case refill now rl of
        Inl p \<Rightarrow> Inl p
      | Inr rl1 \<Rightarrow>
          (case (if tokens rl1 \<le> 0 then refill_after_sleep now' rl1 else Inr rl1) of
             Inl p \<Rightarrow> Inl p
           | Inr rl2 \<Rightarrow> Inr (rl2\<lparr>tokens := tokens rl2 - 1\<rparr>)))"

text \<open>Successive calls; each is given its two clock readings.\<close>

fun Wait_calls :: "(int \<times> int) list \<Rightarrow> RateLimiter \<Rightarrow> panic + RateLimiter" where
  "Wait_calls [] rl = Inr rl"
| "Wait_calls ((now, now') # cs) rl =
     (case Wait now now' rl of Inl p \<Rightarrow> Inl p | Inr rl' \<Rightarrow> Wait_calls cs rl')"

text \<open>
  Thirteen calls within the first 13 microseconds of a limiter of 12 tokens per second;
  a call that sleeps wakes up 83333333 ns (one twelfth of a second) later.
\<close>

definition burst :: "(int \<times> int) list" where
  "burst = map (\<lambda>i. (i * 1000, i * 1000 + 83333333)) [1, 2, 3, 4, 5, 6, 7, 8, 9, 10, 11, 12, 13]"

subsection \<open>\<^verbatim>\<open>tron/api.go\<close>: the API client\<close>

text \<open>
  \<^verbatim>\<open>strings.TrimSpace\<close> removes leading and trailing Unicode white space.  On the bytes of
  a string these are the UTF-8 encodings of the code points with the White_Space
  property: tab, LF, VT, FF, CR, space, U+0085, U+00A0, U+1680, U+2000 to U+200A, U+2028,
  U+2029, U+202F, U+205F and U+3000.
\<close>

definition spaces :: "string list" where
  "spaces =
     [[CHR 0x09], [CHR 0x0A], [CHR 0x0B], [CHR 0x0C], [CHR 0x0D], [CHR 0x20],
      [CHR 0xC2, CHR 0x85], [CHR 0xC2, CHR 0xA0], [CHR 0xE1, CHR 0x9A, CHR 0x80],
      [CHR 0xE2, CHR 0x80, CHR 0x80], [CHR 0xE2, CHR 0x80, CHR 0x81], [CHR 0xE2, CHR 0x80, CHR 0x82],
      [CHR 0xE2, CHR 0x80, CHR 0x83], [CHR 0xE2, CHR 0x80, CHR 0x84], [CHR 0xE2, CHR 0x80, CHR 0x85],
      [CHR 0xE2, CHR 0x80, CHR 0x86], [CHR 0xE2, CHR 0x80, CHR 0x87], [CHR 0xE2, CHR 0x80, CHR 0x88],
      [CHR 0xE2, CHR 0x80, CHR 0x89], [CHR 0xE2, CHR 0x80, CHR 0x8A], [CHR 0xE2, CHR 0x80, CHR 0xA8],
      [CHR 0xE2, CHR 0x80, CHR 0xA9], [CHR 0xE2, CHR 0x80, CHR 0xAF], [CHR 0xE2, CHR 0x81, CHR 0x9F],
      [CHR 0xE3, CHR 0x80, CHR 0x80]]"

definition space_len :: "string list \<Rightarrow> string \<Rightarrow> nat" where
  "space_len tab s = (case find (\<lambda>p. p \<noteq> [] \<and> prefix p s) tab of None \<Rightarrow> 0 | Some p \<Rightarrow> length p)"

function trim_left :: "string list \<Rightarrow> string \<Rightarrow> string" where
  "trim_left tab s = (if space_len tab s = 0 then s else trim_left tab (drop (space_len tab s) s))"
  by pat_completeness auto
termination
proof (relation "measure (\<lambda>(tab, s). length s)")
  show "wf (measure (\<lambda>(tab, s). length s))" by simp
next
  fix tab :: "string list" and s :: string
  assume "space_len tab s \<noteq> 0"
  then obtain p where "find (\<lambda>p. p \<noteq> [] \<and> prefix p s) tab = Some p"
    by (auto simp: space_len_def split: option.splits)
  then have "p \<noteq> []" "prefix p s" by (auto simp: find_Some_iff)
  then have "s \<noteq> []" by auto
  with \<open>space_len tab s \<noteq> 0\<close>
  show "((tab, drop (space_len tab s) s), (tab, s)) \<in> measure (\<lambda>(tab, s). length s)"
    by simp
qed

declare trim_left.simps [simp del]

definition TrimSpace :: "string \<Rightarrow> string" where
  "TrimSpace s = rev (trim_left (map rev spaces) (rev (trim_left spaces s)))"

text \<open>\<^verbatim>\<open>strings.TrimRight(s, "0")\<close>.\<close>

definition TrimRight0 :: "string \<Rightarrow> string" where
  "TrimRight0 s = rev (dropWhile (\<lambda>c. c = CHR ''0'') (rev s))"

text \<open>
  \<^verbatim>\<open>big.Int.SetString(s, 16)\<close>: an optional sign, then at least one digit, each a decimal
  digit or a letter of either case with a value below the base; the whole string must be
  consumed.  No prefix and no underscore is accepted for a base other than 0.
\<close>

definition digit_val :: "char \<Rightarrow> nat" where
  "digit_val c =
     (let v = (of_char c :: nat) in
      if 48 \<le> v \<and> v \<le> 57 then v - 48
      else if 97 \<le> v \<and> v \<le> 122 then v - 97 + 10
      else if 65 \<le> v \<and> v \<le> 90 then v - 65 + 10
      else 36)"

definition digits_value :: "nat \<Rightarrow> string \<Rightarrow> nat" where
  "digits_value base ds = foldl (\<lambda>acc c. acc * base + digit_val c) 0 ds"

definition SetString :: "string \<Rightarrow> nat \<Rightarrow> int option" where
  "SetString s base =
     (let (neg, ds) = (case s of
                         c # r \<Rightarrow> if c = CHR ''+'' then (False, r)
                                  else if c = CHR ''-'' then (True, r) else (False, s)
                       | [] \<Rightarrow> (False, s))
      in if ds = [] \<or> (\<exists>c \<in> set ds. base \<le> digit_val c) then None
         else Some (if neg then - int (digits_value base ds) else int (digits_value base ds)))"

text \<open>\<^verbatim>\<open>big.Int.String\<close> and \<^verbatim>\<open>fmt.Sprintf("%0*d", width, x)\<close>.\<close>

function dec_digits :: "nat \<Rightarrow> string" where
  "dec_digits n =
     (if n < 10 then [''0123456789'' ! n] else dec_digits (n div 10) @ [''0123456789'' ! (n mod 10)])"
  by pat_completeness auto
termination
  by (relation "measure (\<lambda>n. n)") auto

declare dec_digits.simps [simp del]

definition String :: "int \<Rightarrow> string" where
  "String x = (if x < 0 then ''-'' @ dec_digits (nat (- x)) else dec_digits (nat x))"

definition Sprintf_0d :: "nat \<Rightarrow> int \<Rightarrow> string" where
  "Sprintf_0d width x =
     (if x < 0 then ''-'' @ replicate (width - 1 - length (dec_digits (nat (- x)))) (CHR ''0'')
                     @ dec_digits (nat (- x))
      else replicate (width - length (dec_digits (nat x))) (CHR ''0'') @ dec_digits (nat x))"

text \<open>\<^verbatim>\<open>formatDecimals\<close>; \<^verbatim>\<open>big.Int.Div\<close> and \<^verbatim>\<open>Mod\<close> are Euclidean.\<close>

definition formatDecimals :: "int \<Rightarrow> nat \<Rightarrow> string" where
  "formatDecimals n decimals =
     (if decimals = 0 then String n
      else
        let tenPow = (10::int) ^ decimals;
            intPart = n div tenPow;
            fracPart = n mod tenPow;
            fracStr = TrimRight0 (Sprintf_0d decimals fracPart)
        in if fracStr = [] then String intPart
           else String intPart @ ''.'' @ fracStr)"

definition msg_bad_hex :: string where
  "msg_bad_hex = [CHR 0xE6, CHR 0x97, CHR 0xA0, CHR 0xE6, CHR 0xB3, CHR 0x95, CHR 0xE8, CHR 0xA7, CHR 0xA3,
                  CHR 0xE6, CHR 0x9E, CHR 0x90] @ ''hex'' @ [CHR 0xE4, CHR 0xBD, CHR 0x99, CHR 0xE9, CHR 0xA2, CHR 0x9D]
                 @ '': %s''"

text \<open>The end of \<^verbatim>\<open>QueryBalanceWithContext\<close>, from the first element of \<^verbatim>\<open>constant_result\<close> on.\<close>

definition parse_balance :: "string \<Rightarrow> error + string" where
  "parse_balance balanceHex0 =
     (let balanceHex = TrimSpace balanceHex0;
          balanceHex = (if balanceHex = [] then ''0'' else balanceHex)
      in case SetString balanceHex 16 of
           None \<Rightarrow> Inl (errors_New msg_bad_hex)
         | Some n \<Rightarrow> Inr (formatDecimals n 6))"

text \<open>Reading a decimal string back, to say what a rendering denotes.\<close>

definition dec_value :: "string \<Rightarrow> nat" where
  "dec_value ds = digits_value 10 ds"

definition is_hex :: "char \<Rightarrow> bool" where
  "is_hex c \<longleftrightarrow> c \<in> set ''0123456789abcdefABCDEF''"


text \<open>
  The response structure filled by \<^verbatim>\<open>json.Unmarshal\<close>, the body of a response as the client
  sees it, the response and what \<^verbatim>\<open>HTTPClient.Do\<close> returns (a response without an error, or
  an error with or without a response).
\<close>

record apiResp =
  ConstantResult :: "string list"
  Result_Result :: bool
  Result_Code :: string
  Result_Message :: string
  Error_field :: string
  ErrorDescription :: string

datatype body = ReadFails | NotJSON | JSON apiResp

record Response =
  StatusCode :: int
  Body :: body

datatype do_result = Do_ok Response | Do_err "Response option"

record TriggerConstantContractRequest =
  OwnerAddress :: string
  ContractAddress :: string
  FunctionSelector :: string
  Parameter :: string
  Visible :: bool

record Request =
  URL :: string
  TRON_PRO_API_KEY :: "string option"
  reqBody :: TriggerConstantContractRequest

text \<open>
  What one call meets outside the program: the two clock readings of the limiter, whether
  \<^verbatim>\<open>http.NewRequestWithContext\<close> accepts the URL, whether the context is cancelled when
  attempt \<open>i\<close> starts, and what the server answers to attempt \<open>i\<close>.
\<close>

record world =
  t_enter :: int
  t_wake :: int
  url_ok :: "string \<Rightarrow> bool"
  ctx_done :: "nat \<Rightarrow> bool"
  do :: "Request \<Rightarrow> nat \<Rightarrow> do_result"

record APIClient =
  APIKey :: string
  BaseURL :: string
  Limiter :: RateLimiter

definition USDTContractAddress :: string where
  "USDTContractAddress = ''TR7NHqjeKQxGTCi8q8ZY4pL8otSzgjLj6t''"

definition TronGridAPI :: string where
  "TronGridAPI = ''https://api.trongrid.io/wallet/triggerconstantcontract''"

definition BalanceOfSelector :: string where
  "BalanceOfSelector = ''balanceOf(address)''"

definition NewAPIClient :: "string \<Rightarrow> int \<Rightarrow> APIClient" where
  "NewAPIClient apiKey now =
     \<lparr>APIKey = apiKey, BaseURL = TronGridAPI, Limiter = NewRateLimiter 12 1000000000 now\<rparr>"

definition SetBaseURL :: "string \<Rightarrow> APIClient \<Rightarrow> APIClient" where
  "SetBaseURL url c = c\<lparr>BaseURL := url\<rparr>"

text \<open>The messages of the client's errors, as the source passes them to \<^verbatim>\<open>errors.New\<close>.\<close>

definition msg_conv_failed :: string where
  "msg_conv_failed = [CHR 0xE5, CHR 0x9C, CHR 0xB0, CHR 0xE5, CHR 0x9D, CHR 0x80, CHR 0xE8, CHR 0xBD, CHR 0xAC,
      CHR 0xE6, CHR 0x8D, CHR 0xA2, CHR 0xE5, CHR 0xA4, CHR 0xB1, CHR 0xE8, CHR 0xB4, CHR 0xA5] @ '': %v''"

definition msg_newreq_failed :: string where
  "msg_newreq_failed = [CHR 0xE5, CHR 0x88, CHR 0x9B, CHR 0xE5, CHR 0xBB, CHR 0xBA, CHR 0xE8, CHR 0xAF, CHR 0xB7,
      CHR 0xE6, CHR 0xB1, CHR 0x82, CHR 0xE5, CHR 0xA4, CHR 0xB1, CHR 0xE8, CHR 0xB4, CHR 0xA5] @ '': %v''"

definition msg_cancelled_req :: string where
  "msg_cancelled_req = [CHR 0xE8, CHR 0xAF, CHR 0xB7, CHR 0xE6, CHR 0xB1, CHR 0x82, CHR 0xE5, CHR 0xB7, CHR 0xB2,
      CHR 0xE5, CHR 0x8F, CHR 0x96, CHR 0xE6, CHR 0xB6, CHR 0x88]"

definition msg_req_failed :: string where
  "msg_req_failed = [CHR 0xE8, CHR 0xAF, CHR 0xB7, CHR 0xE6, CHR 0xB1, CHR 0x82, CHR 0xE5, CHR 0xA4, CHR 0xB1,
      CHR 0xE8, CHR 0xB4, CHR 0xA5] @ '': %v''"

definition msg_api_http :: string where
  "msg_api_http = ''API '' @ [CHR 0xE8, CHR 0xBF, CHR 0x94, CHR 0xE5, CHR 0x9B, CHR 0x9E, CHR 0xE9, CHR 0x94,
      CHR 0x99, CHR 0xE8, CHR 0xAF, CHR 0xAF] @ '' (HTTP %d): %s''"

definition msg_read_failed :: string where
  "msg_read_failed = [CHR 0xE8, CHR 0xAF, CHR 0xBB, CHR 0xE5, CHR 0x8F, CHR 0x96, CHR 0xE5, CHR 0x93, CHR 0x8D,
      CHR 0xE5, CHR 0xBA, CHR 0x94, CHR 0xE5, CHR 0xA4, CHR 0xB1, CHR 0xE8, CHR 0xB4, CHR 0xA5] @ '': %v''"

definition msg_parse_failed :: string where
  "msg_parse_failed = [CHR 0xE8, CHR 0xA7, CHR 0xA3, CHR 0xE6, CHR 0x9E, CHR 0x90, CHR 0xE5, CHR 0x93, CHR 0x8D,
      CHR 0xE5, CHR 0xBA, CHR 0x94, CHR 0xE5, CHR 0xA4, CHR 0xB1, CHR 0xE8, CHR 0xB4, CHR 0xA5] @ '': %v, '' @
     [CHR 0xE5, CHR 0x93, CHR 0x8D, CHR 0xE5, CHR 0xBA, CHR 0x94, CHR 0xE5, CHR 0x86, CHR 0x85, CHR 0xE5,
      CHR 0xAE, CHR 0xB9] @ '': %s''"

definition msg_api_error :: string where
  "msg_api_error = ''API '' @ [CHR 0xE9, CHR 0x94, CHR 0x99, CHR 0xE8, CHR 0xAF, CHR 0xAF] @ '': %s ('' @
     [CHR 0xE5, CHR 0xAE, CHR 0x8C, CHR 0xE6, CHR 0x95, CHR 0xB4, CHR 0xE5, CHR 0x93, CHR 0x8D, CHR 0xE5,
      CHR 0xBA, CHR 0x94] @ '': %s)''"

definition msg_unknown :: string where
  "msg_unknown = [CHR 0xE6, CHR 0x9C, CHR 0xAA, CHR 0xE7, CHR 0x9F, CHR 0xA5, CHR 0xE9, CHR 0x94, CHR 0x99,
      CHR 0xE8, CHR 0xAF, CHR 0xAF]"

definition msg_query_failed :: string where
  "msg_query_failed = [CHR 0xE6, CHR 0x9F, CHR 0xA5, CHR 0xE8, CHR 0xAF, CHR 0xA2, CHR 0xE5, CHR 0xA4, CHR 0xB1,
      CHR 0xE8, CHR 0xB4, CHR 0xA5] @ '': result=false, code=%s, '' @
     [CHR 0xE5, CHR 0xAE, CHR 0x8C, CHR 0xE6, CHR 0x95, CHR 0xB4, CHR 0xE5, CHR 0x93, CHR 0x8D, CHR 0xE5,
      CHR 0xBA, CHR 0x94] @ '': %s''"

definition msg_no_constant_result :: string where
  "msg_no_constant_result = [CHR 0xE6, CHR 0x9F, CHR 0xA5, CHR 0xE8, CHR 0xAF, CHR 0xA2, CHR 0xE5, CHR 0xA4,
      CHR 0xB1, CHR 0xE8, CHR 0xB4, CHR 0xA5] @ '': '' @
     [CHR 0xE5, CHR 0x93, CHR 0x8D, CHR 0xE5, CHR 0xBA, CHR 0x94, CHR 0xE4, CHR 0xB8, CHR 0xAD, CHR 0xE6,
      CHR 0xB2, CHR 0xA1, CHR 0xE6, CHR 0x9C, CHR 0x89] @ '' constant_result ('' @
     [CHR 0xE5, CHR 0xAE, CHR 0x8C, CHR 0xE6, CHR 0x95, CHR 0xB4, CHR 0xE5, CHR 0x93, CHR 0x8D, CHR 0xE5,
      CHR 0xBA, CHR 0x94] @ '': %s)''"

text \<open>
  The request loop.  \<open>i\<close> is the loop variable, \<open>resp\<close> and \<open>lastErr\<close> the two variables
  assigned by each attempt (\<open>lastErr\<close> is true for a non-nil error), \<open>sleeps\<close> the seconds
  slept so far.  The loop is left by \<^verbatim>\<open>return\<close> when the context is cancelled, by
  \<^verbatim>\<open>break\<close> on a response with status 200 and no error, or when \<open>i\<close> reaches
  \<open>maxRetries\<close>.  The result also counts the calls of \<^verbatim>\<open>HTTPClient.Do\<close>.
\<close>

definition maxRetries :: nat where
  "maxRetries = 3"

definition status_is :: "Response option \<Rightarrow> int \<Rightarrow> bool" where
  "status_is resp code = (case resp of None \<Rightarrow> False | Some r \<Rightarrow> StatusCode r = code)"

datatype loop_exit = Cancelled | Left "Response option" bool

record loop_result =
  exit :: loop_exit
  calls :: nat
  sleeps :: "int list"

function send_loop :: "world \<Rightarrow> Request \<Rightarrow> nat \<Rightarrow> Response option \<Rightarrow> bool \<Rightarrow> int list \<Rightarrow> loop_result" where
  "send_loop w req i resp lastErr sl =
     (if i < maxRetries then
        (if ctx_done w i then \<lparr>exit = Cancelled, calls = i, sleeps = sl\<rparr>
         else
           let (resp, lastErr) = (case do w req i of Do_ok r \<Rightarrow> (Some r, False) | Do_err ro \<Rightarrow> (ro, True)) in
           if \<not> lastErr \<and> status_is resp 200 then \<lparr>exit = Left resp lastErr, calls = i + 1, sleeps = sl\<rparr>
           else if status_is resp 429 then
             send_loop w req (i + 1) resp lastErr (sl @ [(int i + 1) * 2])
           else if lastErr \<and> i < maxRetries - 1 then
             send_loop w req (i + 1) resp lastErr (sl @ [int i + 1])
           else send_loop w req (i + 1) resp lastErr sl)
      else \<lparr>exit = Left resp lastErr, calls = i, sleeps = sl\<rparr>)"
  by pat_completeness auto
termination
  by (relation "measure (\<lambda>(w, req, i, resp, lastErr, sl). maxRetries - i)") auto

declare send_loop.simps [simp del]

text \<open>An attempt that ends the loop: a response with status 200 and no error.\<close>

definition ok200 :: "do_result \<Rightarrow> bool" where
  "ok200 d = (case d of Do_ok r \<Rightarrow> StatusCode r = 200 | Do_err ro \<Rightarrow> False)"

text \<open>
  The wait that follows attempt \<open>i\<close> when that attempt does not end the loop: the
  \<^verbatim>\<open>time.Sleep\<close> of the 429 branch, that of the error branch, or none when the loop body
  falls through.
\<close>

definition pause_after :: "nat \<Rightarrow> do_result \<Rightarrow> int list" where
  "pause_after i d =
     (case d of
        Do_ok r \<Rightarrow> (if StatusCode r = 429 then [(int i + 1) * 2] else [])
      | Do_err ro \<Rightarrow>
          (if status_is ro 429 then [(int i + 1) * 2] else if i < maxRetries - 1 then [int i + 1] else []))"

text \<open>The checks on the parsed response, in the order of the source.\<close>

definition check_response :: "apiResp \<Rightarrow> error + string" where
  "check_response r =
     (if Error_field r \<noteq> [] then
        (let desc = ErrorDescription r;
             desc = (if desc = [] then Error_field r else desc)
         in Inl (errors_New msg_api_error))
      else if \<not> Result_Result r then
        (let errorMsg = Result_Message r;
             errorMsg = (if errorMsg = [] then Result_Code r else errorMsg);
             errorMsg = (if errorMsg = [] then msg_unknown else errorMsg)
         in Inl (errors_New msg_query_failed))
      else if length (ConstantResult r) > 0 then parse_balance (ConstantResult r ! 0)
      else Inl (errors_New msg_no_constant_result))"

text \<open>
  \<^verbatim>\<open>QueryBalanceWithContext\<close> after the limiter.  A loop left with neither a response nor
  an error cannot arise (every attempt assigns one of them); it is kept as the nil
  dereference it would be.
\<close>

definition build_request :: "APIClient \<Rightarrow> string \<Rightarrow> string \<Rightarrow> Request" where
  "build_request c address param =
     \<lparr>URL = BaseURL c,
      TRON_PRO_API_KEY = (if APIKey c \<noteq> [] then Some (APIKey c) else None),
      reqBody = \<lparr>OwnerAddress = address, ContractAddress = USDTContractAddress,
                  FunctionSelector = BalanceOfSelector, Parameter = param, Visible = True\<rparr>\<rparr>"

definition send_request :: "world \<Rightarrow> Request \<Rightarrow> loop_result" where
  "send_request w req = send_loop w req 0 None False []"

definition query :: "world \<Rightarrow> APIClient \<Rightarrow> string \<Rightarrow> panic + (error + string)" where
  "query w c address =
     (case AddressToParameter address of
        Inl err \<Rightarrow> Inr (Inl (errors_New msg_conv_failed))
      | Inr param \<Rightarrow>
          if \<not> url_ok w (BaseURL c) then Inr (Inl (errors_New msg_newreq_failed))
          else
            (case exit (send_request w (build_request c address param)) of
               Cancelled \<Rightarrow> Inr (Inl (errors_New msg_cancelled_req))
             | Left resp lastErr \<Rightarrow>
                 if lastErr then Inr (Inl (errors_New msg_req_failed))
                 else
                   (case resp of
                      None \<Rightarrow> Inl NilDereference
                    | Some r \<Rightarrow>
                        if StatusCode r \<noteq> 200 then Inr (Inl (errors_New msg_api_http))
                        else
                          (case Body r of
                             ReadFails \<Rightarrow> Inr (Inl (errors_New msg_read_failed))
                           | NotJSON \<Rightarrow> Inr (Inl (errors_New msg_parse_failed))
                           | JSON a \<Rightarrow> Inr (check_response a)))))"

definition QueryBalanceWithContext ::
    "world \<Rightarrow> APIClient \<Rightarrow> string \<Rightarrow> panic + (error + string) \<times> APIClient" where
  "QueryBalanceWithContext w c address =
     (case Wait (t_enter w) (t_wake w) (Limiter c) of
        Inl p \<Rightarrow> Inl p
      | Inr rl \<Rightarrow>
          (case query w c address of
             Inl p \<Rightarrow> Inl p
           | Inr res \<Rightarrow> Inr (res, c\<lparr>Limiter := rl\<rparr>)))"

text \<open>
  Concrete surroundings: a server that gives the same answer to every attempt, a live
  context, and a client made at time 0 and called at time 1.
\<close>

definition world_of :: "do_result \<Rightarrow> world" where
  "world_of d = \<lparr>t_enter = 1, t_wake = 2, url_ok = (\<lambda>u. True), ctx_done = (\<lambda>i. False),
                  do = (\<lambda>req i. d)\<rparr>"

definition client0 :: APIClient where
  "client0 = NewAPIClient ''key-1'' 0"

definition req0 :: Request where
  "req0 = build_request client0 USDTContractAddress
            ''000000000000000000000000a614f803b6fd780986a42c78ec9c7f77e6ded13c''"

definition resp500 :: Response where
  "resp500 = \<lparr>StatusCode = 500, Body = NotJSON\<rparr>"

text \<open>An answer that reports an error at its top level, and one with a balance of 2^64.\<close>

definition resp_top_error :: apiResp where
  "resp_top_error =
     \<lparr>ConstantResult = [], Result_Result = False, Result_Code = [], Result_Message = [],
      Error_field = ''class org.tron.core.exception.ContractValidateException'',
      ErrorDescription = ''No contract or not a smart contract''\<rparr>"

definition resp_balance :: apiResp where
  "resp_balance =
     \<lparr>ConstantResult = [''0000000000000000000000000000000000000000000000010000000000000000''],
      Result_Result = True, Result_Code = [], Result_Message = [],
      Error_field = [], ErrorDescription = []\<rparr>"

text \<open>
  An answer whose \<^verbatim>\<open>constant_result\<close> has two elements, the first one 2^64 written with
  white space around it, and a response with status 429.
\<close>

definition resp_two :: apiResp where
  "resp_two =
     \<lparr>ConstantResult = ['' 10000000000000000 '', ''ff''],
      Result_Result = True, Result_Code = [], Result_Message = [],
      Error_field = [], ErrorDescription = []\<rparr>"

definition resp429 :: Response where
  "resp429 = \<lparr>StatusCode = 429, Body = NotJSON\<rparr>"

subsection \<open>\<^verbatim>\<open>core/query.go\<close>: a batch run\<close>

text \<open>
  A batch run.  The goroutines of \<^verbatim>\<open>QueryAddresses\<close> are interleaved: the state holds the
  result table, the key manager, whether the context is cancelled, the loop variable of
  the sending goroutine, whether it has closed the unbuffered \<^verbatim>\<open>jobs\<close> channel, where each
  worker stands, and the progress counter.  A worker waits to receive (\<open>Idle\<close>), has
  received index \<open>i\<close> and stands before the cancellation check (\<open>Holding i\<close>), has
  obtained a key and is inside \<^verbatim>\<open>QueryBalanceWithContext\<close> (\<open>Querying i key\<close>), or has
  left its loop (\<open>Exited\<close>).  Writing a result, counting it and reporting progress are one
  step; the progress callback belongs to the caller and is not part of the state.
\<close>

datatype worker = Idle | Holding nat | Querying nat string | Exited

record run_state =
  results :: "QueryResult list"
  keyManager :: APIKeyManager
  cancelled :: bool
  next_job :: nat
  jobs_closed :: bool
  workers :: "worker list"
  completedCount :: nat

definition msg_cancelled :: string where
  "msg_cancelled = [CHR 0xE5, CHR 0xB7, CHR 0xB2, CHR 0xE5, CHR 0x8F, CHR 0x96, CHR 0xE6, CHR 0xB6, CHR 0x88]"

definition msg_key_failed :: string where
  "msg_key_failed = ''API Key '' @ [CHR 0xE8, CHR 0x8E, CHR 0xB7, CHR 0xE5, CHR 0x8F, CHR 0x96, CHR 0xE5, CHR 0xA4,
      CHR 0xB1, CHR 0xE8, CHR 0xB4, CHR 0xA5] @ '': ''"

definition pending_result :: "string \<Rightarrow> QueryResult" where
  "pending_result addr = \<lparr>Address = addr, Balance = [], Status = ''pending'', Error_text = []\<rparr>"

definition cancelled_result :: "string \<Rightarrow> QueryResult" where
  "cancelled_result addr = \<lparr>Address = addr, Balance = [], Status = ''cancelled'', Error_text = msg_cancelled\<rparr>"

definition error_result :: "string \<Rightarrow> string \<Rightarrow> QueryResult" where
  "error_result addr msg = \<lparr>Address = addr, Balance = [], Status = ''error'', Error_text = msg\<rparr>"

definition success_result :: "string \<Rightarrow> string \<Rightarrow> QueryResult" where
  "success_result addr balance = \<lparr>Address = addr, Balance = balance, Status = ''success'', Error_text = []\<rparr>"

definition query_result_of :: "string \<Rightarrow> error + string \<Rightarrow> QueryResult" where
  "query_result_of addr res =
     (case res of Inl err \<Rightarrow> error_result addr (Error err) | Inr balance \<Rightarrow> success_result addr balance)"

text \<open>A worker records the result of index \<open>i\<close> and goes back to receiving.\<close>

definition record_result :: "run_state \<Rightarrow> nat \<Rightarrow> nat \<Rightarrow> QueryResult \<Rightarrow> run_state" where
  "record_result s w i r =
     s\<lparr>results := (results s)[i := r], workers := (workers s)[w := Idle],
       completedCount := completedCount s + 1\<rparr>"

definition make_client :: "string \<Rightarrow> string \<Rightarrow> int \<Rightarrow> APIClient" where
  "make_client baseURL apiKey now =
     (if baseURL \<noteq> [] then SetBaseURL baseURL (NewAPIClient apiKey now) else NewAPIClient apiKey now)"

inductive step :: "string \<Rightarrow> string list \<Rightarrow> run_state \<Rightarrow> run_state \<Rightarrow> bool"
  for baseURL :: string and addresses :: "string list" where
  cancel:
    "\<not> cancelled s \<Longrightarrow> step baseURL addresses s (s\<lparr>cancelled := True\<rparr>)"
| send:
    "\<lbrakk>\<not> jobs_closed s; next_job s < length addresses; w < length (workers s); workers s ! w = Idle\<rbrakk>
     \<Longrightarrow> step baseURL addresses s
           (s\<lparr>workers := (workers s)[w := Holding (next_job s)], next_job := next_job s + 1\<rparr>)"
| sender_stop:
    "\<lbrakk>\<not> jobs_closed s; next_job s < length addresses; cancelled s\<rbrakk>
     \<Longrightarrow> step baseURL addresses s (s\<lparr>jobs_closed := True\<rparr>)"
| sender_done:
    "\<lbrakk>\<not> jobs_closed s; next_job s = length addresses\<rbrakk>
     \<Longrightarrow> step baseURL addresses s (s\<lparr>jobs_closed := True\<rparr>)"
| worker_cancelled:
    "\<lbrakk>w < length (workers s); workers s ! w = Holding i; i < length addresses; i < length (results s);
      cancelled s\<rbrakk>
     \<Longrightarrow> step baseURL addresses s (record_result s w i (cancelled_result (addresses ! i)))"
| worker_no_key:
    "\<lbrakk>w < length (workers s); workers s ! w = Holding i; i < length addresses; i < length (results s);
      \<not> cancelled s; GetNextKey (keyManager s) = Inr (Inl err, m')\<rbrakk>
     \<Longrightarrow> step baseURL addresses s
           ((record_result s w i (error_result (addresses ! i) (msg_key_failed @ Error err)))
              \<lparr>keyManager := m'\<rparr>)"
| worker_key:
    "\<lbrakk>w < length (workers s); workers s ! w = Holding i; i < length addresses; i < length (results s);
      \<not> cancelled s; GetNextKey (keyManager s) = Inr (Inr apiKey, m')\<rbrakk>
     \<Longrightarrow> step baseURL addresses s
           (s\<lparr>workers := (workers s)[w := Querying i apiKey], keyManager := m'\<rparr>)"
| worker_query:
    "\<lbrakk>w < length (workers s); workers s ! w = Querying i apiKey; i < length addresses;
      i < length (results s);
      QueryBalanceWithContext wd (make_client baseURL apiKey now) (addresses ! i) = Inr (res, c')\<rbrakk>
     \<Longrightarrow> step baseURL addresses s (record_result s w i (query_result_of (addresses ! i) res))"
| worker_exit:
    "\<lbrakk>w < length (workers s); workers s ! w = Idle; jobs_closed s\<rbrakk>
     \<Longrightarrow> step baseURL addresses s (s\<lparr>workers := (workers s)[w := Exited]\<rparr>)"

text \<open>\<^verbatim>\<open>wg.Wait()\<close> returns when every worker has left its loop.\<close>

definition returned :: "run_state \<Rightarrow> bool" where
  "returned s \<longleftrightarrow> (\<forall>x \<in> set (workers s). x = Exited)"

definition start :: "APIKeyManager \<Rightarrow> nat \<Rightarrow> bool \<Rightarrow> string list \<Rightarrow> run_state" where
  "start km maxConcurrent c addresses =
     \<lparr>results = map pending_result addresses, keyManager = km, cancelled = c, next_job = 0,
      jobs_closed = False, workers = replicate maxConcurrent Idle, completedCount = 0\<rparr>"


text \<open>The index a worker is working on, and the statuses that are final.\<close>

fun job_of :: "worker \<Rightarrow> nat option" where
  "job_of Idle = None"
| "job_of (Holding i) = Some i"
| "job_of (Querying i k) = Some i"
| "job_of Exited = None"

definition terminal :: "QueryResult \<Rightarrow> bool" where
  "terminal r \<longleftrightarrow> Status r = ''success'' \<or> Status r = ''error'' \<or> Status r = ''cancelled''"

definition key_ok :: "APIKeyManager \<Rightarrow> bool" where
  "key_ok m \<longleftrightarrow> length (keys m) \<le> 1 \<or> current m < length (keys m)"

definition inv :: "string list \<Rightarrow> run_state \<Rightarrow> bool" where
  "inv addresses s \<longleftrightarrow>
     length (results s) = length addresses \<and>
     next_job s \<le> length addresses \<and>
     key_ok (keyManager s) \<and>
     (jobs_closed s \<and> \<not> cancelled s \<longrightarrow> next_job s = length addresses) \<and>
     (\<forall>i < length addresses. Address (results s ! i) = addresses ! i) \<and>
     (\<forall>i < length addresses. next_job s \<le> i \<longrightarrow> results s ! i = pending_result (addresses ! i)) \<and>
     (\<forall>w < length (workers s). \<forall>i. job_of (workers s ! w) = Some i \<longrightarrow>
         i < next_job s \<and> Status (results s ! i) = ''pending'') \<and>
     (\<forall>w < length (workers s). \<forall>w' < length (workers s). \<forall>i.
         job_of (workers s ! w) = Some i \<and> job_of (workers s ! w') = Some i \<longrightarrow> w = w') \<and>
     (\<forall>i < next_job s. (\<exists>w < length (workers s). job_of (workers s ! w) = Some i) \<or> terminal (results s ! i))"






definition processed :: "QueryResult \<Rightarrow> bool" where
  "processed r \<longleftrightarrow> Status r = ''success'' \<or> Status r = ''error''"



subsection \<open>A concrete batch\<close>

text \<open>
  A batch of five addresses with one worker and one key, the server answering the first
  address with a balance of 2^64 base units, and the states of a run in which the
  context is cancelled after the first result is recorded.
\<close>

definition addrs5 :: "string list" where
  "addrs5 = [USDTContractAddress, ''TRrDBUGkSCRjP37wcW2jEKBHU94mnDfKXr'',
             ''TTUr7mjwK8dWk8cydv8uDTSs1dokF5keA4'', ''TNYSikS9Qb36MPev7nguig3DZs8bVjneih'',
             ''TASSahrVV5CP5WYZ3Kw9CDb2QdWLRmC9J7'']"

definition key1 :: APIKeyInfo where
  "key1 = \<lparr>Key = ''key-1'', Used = 0, MaxLimit = 100000, Enabled = True\<rparr>"

definition pool_one :: APIKeyManager where
  "pool_one = \<lparr>keys = [key1], current = 0, totalUsed = 0\<rparr>"

definition pool_one_used :: APIKeyManager where
  "pool_one_used = \<lparr>keys = [key1\<lparr>Used := 1\<rparr>], current = 0, totalUsed = 1\<rparr>"

definition world_ok :: world where
  "world_ok = world_of (Do_ok \<lparr>StatusCode = 200, Body = JSON resp_balance\<rparr>)"

definition results_after_first :: "QueryResult list" where
  "results_after_first =
     success_result USDTContractAddress ''18446744073709.551616'' # map pending_result (tl addrs5)"

definition run_first_done :: run_state where
  "run_first_done =
     \<lparr>results = results_after_first, keyManager = pool_one_used, cancelled = False, next_job = 1,
      jobs_closed = False, workers = [Idle], completedCount = 1\<rparr>"

definition run_final :: run_state where
  "run_final =
     \<lparr>results = results_after_first, keyManager = pool_one_used, cancelled = True, next_job = 1,
      jobs_closed = True, workers = [Exited], completedCount = 1\<rparr>"



definition results_after_second :: "QueryResult list" where
  "results_after_second =
     success_result USDTContractAddress ''18446744073709.551616'' #
     success_result ''TRrDBUGkSCRjP37wcW2jEKBHU94mnDfKXr'' ''18446744073709.551616'' #
     map pending_result (drop 2 addrs5)"


section \<open>Properties\<close>

subsection \<open>Statistics\<close>

lemma stats_loop_counts:
  "stats_loop rs (s, f) =
     (s + length (filter (\<lambda>r. Status r = ''success'') rs),
      f + length (filter (\<lambda>r. Status r = ''error'') rs))"
  by (induction rs arbitrary: s f) auto

subsection \<open>Address codec\<close>

lemma u8_less: "unat (v::byte) < 256"
proof -
  have "unat v < 2 ^ LENGTH(8)" by (rule unsigned_less)
  then show ?thesis by simp
qed

lemma nibble_hi: "unat (drop_bit 4 (v::byte)) < 16"
proof -
  have "unat (drop_bit 4 v) = unat v div 16"
    unfolding unat_drop_bit_eq by (simp add: drop_bit_eq_div)
  then show ?thesis using u8_less[of v] by linarith
qed

lemma low_mask: "(0x0f::byte) = mask 4"
  by (simp add: mask_eq_exp_minus_1)

lemma nibble_lo: "unat ((v::byte) AND 0x0f) < 16"
proof -
  have "unat (v AND mask 4) = take_bit 4 (unat v)"
    by (simp add: take_bit_eq_mask[symmetric] unsigned_take_bit_eq)
  moreover have "take_bit 4 (unat v) < 2 ^ 4"
    by (rule take_bit_nat_less_exp)
  ultimately show ?thesis by (simp add: low_mask)
qed

lemma length_hextable: "length hextable = 16"
  by (simp add: hextable_def)

lemma hextable_nth_mem: "n < 16 \<Longrightarrow> hextable ! n \<in> set hextable"
  by (rule nth_mem) (simp add: length_hextable)

lemma EncodeToString_Nil: "EncodeToString [] = []"
  by (simp add: EncodeToString_def)

lemma EncodeToString_Cons:
  "EncodeToString (v # src) = hextable ! unat (drop_bit 4 v) # hextable ! unat (v AND 0x0f) # EncodeToString src"
  by (simp add: EncodeToString_def)

lemma EncodeToString_append: "EncodeToString (xs @ ys) = EncodeToString xs @ EncodeToString ys"
  by (simp add: EncodeToString_def)

lemma length_EncodeToString: "length (EncodeToString src) = 2 * length src"
  by (induction src) (simp_all add: EncodeToString_Nil EncodeToString_Cons)

lemma set_EncodeToString: "set (EncodeToString src) \<subseteq> set hextable"
  by (induction src) (simp_all add: EncodeToString_Nil EncodeToString_Cons hextable_nth_mem nibble_hi nibble_lo)

lemma EncodeToString_zeros: "EncodeToString (replicate n 0) = replicate (2 * n) (CHR ''0'')"
  by (induction n) (simp_all add: EncodeToString_Nil EncodeToString_Cons hextable_def)

lemma fromHexChar_nth: "n < 16 \<Longrightarrow> fromHexChar (hextable ! n) = Some (of_nat n)"
proof -
  have "list_all (\<lambda>k. fromHexChar (hextable ! k) = Some (of_nat k)) [0..<16]"
    by code_simp
  moreover assume "n < 16"
  ultimately show ?thesis by (simp add: list_all_iff)
qed

lemma nibbles_join: "push_bit 4 (drop_bit 4 (v::byte)) OR (v AND 0x0f) = v"
proof -
  have m: "(0x0f::byte) = mask 4" by (simp add: mask_eq_exp_minus_1)
  show ?thesis unfolding m
    by (rule bit_word_eqI) (auto simp: bit_simps)
qed

lemma DecodeString_EncodeToString: "DecodeString (EncodeToString src) = Some src"
  by (induction src) (simp_all add: EncodeToString_Nil EncodeToString_Cons fromHexChar_nth nibble_hi nibble_lo nibbles_join)


lemma AddressToParameter_eq:
  "AddressToParameter a =
     (if length (Decode a) < 21 then Inl (errors_New msg_invalid_address)
      else Inr (replicate 24 (CHR ''0'') @ EncodeToString (take 20 (drop 1 (Decode a)))))"
  by (simp add: AddressToParameter_def Let_def EncodeToString_append EncodeToString_zeros)

lemma AddressToHex_eq:
  "AddressToHex a =
     (if length (Decode a) < 21 then Inl (errors_New msg_invalid_address)
      else Inr (EncodeToString (take 21 (Decode a))))"
  by (simp add: AddressToHex_def Let_def)

lemma DecodeString_drop24:
  "DecodeString (drop 24 (replicate 24 (CHR ''0'') @ EncodeToString bs)) = Some bs"
  by (simp add: DecodeString_EncodeToString)

text \<open>
  Claim C8.  Whenever \<open>AddressToParameter\<close> succeeds, the result is 64 characters of the
  lowercase hex table, the first 24 are \<open>0\<close> and the last 40 encode bytes 1 to 20 of the
  decoded input; whenever \<open>AddressToHex\<close> succeeds, the result is 42 characters of the
  lowercase hex table encoding the first 21 decoded bytes.  Each fails exactly when fewer
  than 21 bytes are decoded, and the only error is the invalid-address error.
\<close>

theorem toCallParameter_toOwnerHex_shape:
  "(\<forall>r. AddressToParameter a = Inr r \<longrightarrow>
      length r = 64 \<and> set r \<subseteq> set hextable \<and> take 24 r = replicate 24 (CHR ''0'') \<and>
      DecodeString (drop 24 r) = Some (take 20 (drop 1 (Decode a)))) \<and>
   (\<forall>r. AddressToHex a = Inr r \<longrightarrow>
      length r = 42 \<and> set r \<subseteq> set hextable \<and> DecodeString r = Some (take 21 (Decode a))) \<and>
   (AddressToParameter a = Inl (errors_New msg_invalid_address) \<longleftrightarrow> length (Decode a) < 21) \<and>
   (AddressToHex a = Inl (errors_New msg_invalid_address) \<longleftrightarrow> length (Decode a) < 21) \<and>
   (\<forall>e. AddressToParameter a = Inl e \<or> AddressToHex a = Inl e \<longrightarrow> e = errors_New msg_invalid_address)"
proof -
  have hex: "set (EncodeToString bs) \<subseteq> set hextable" for bs
    by (rule set_EncodeToString)
  have zero: "CHR ''0'' \<in> set hextable" by (simp add: hextable_def)
  show ?thesis
  proof (cases "length (Decode a) < 21")
    case True
    then show ?thesis by (simp add: AddressToParameter_eq AddressToHex_eq)
  next
    case False
    then have l20: "length (take 20 (drop 1 (Decode a))) = 20"
      and l21: "length (take 21 (Decode a)) = 21" by simp_all
    from False hex zero l20 l21 show ?thesis
      by (auto simp add: AddressToParameter_eq AddressToHex_eq length_EncodeToString
          DecodeString_EncodeToString simp del: length_take length_drop)
  qed
qed


lemma length_u32_bytes: "length (u32_bytes x) = 4"
  by (simp add: u32_bytes_def)

lemma length_digest_bytes: "length (digest_bytes d) = 32"
  by (simp add: digest_bytes_def length_u32_bytes split: prod.splits)

lemma length_Sum256: "length (Sum256 m) = 32"
  by (simp add: Sum256_def length_digest_bytes)

lemma checksum_loop_iff:
  "checksum_loop i c h \<longleftrightarrow> (\<forall>k. i \<le> k \<and> k < 4 \<longrightarrow> c ! k = h ! k)"
proof (induction i c h rule: checksum_loop.induct)
  case (1 i c h)
  show ?case
  proof (cases "i < 4")
    case False
    then show ?thesis by (subst checksum_loop.simps) auto
  next
    case lt: True
    show ?thesis
    proof (cases "c ! i = h ! i")
      case False
      with lt show ?thesis by (subst checksum_loop.simps) auto
    next
      case True
      with lt 1 have IH: "checksum_loop (Suc i) c h \<longleftrightarrow>
          (\<forall>k. Suc i \<le> k \<and> k < 4 \<longrightarrow> c ! k = h ! k)" by simp
      have "(\<forall>k. i \<le> k \<and> k < 4 \<longrightarrow> c ! k = h ! k) \<longleftrightarrow>
          (\<forall>k. Suc i \<le> k \<and> k < 4 \<longrightarrow> c ! k = h ! k)"
        using True by (metis Suc_leI le_neq_implies_less Suc_leD)
      with IH lt True show ?thesis by (subst checksum_loop.simps) simp
    qed
  qed
qed

lemma checksum_loop_eq:
  assumes "length c = 4" "4 \<le> length h"
  shows "checksum_loop 0 c h \<longleftrightarrow> c = take 4 h"
  using assms by (auto simp: checksum_loop_iff list_eq_iff_nth_eq)

lemma ValidateAddress_iff:
  "ValidateAddress a \<longleftrightarrow>
     length (Decode a) = 25 \<and>
     drop 21 (Decode a) = take 4 (Sum256 (Sum256 (take 21 (Decode a))))"
proof (cases "length (Decode a) = 25")
  case False
  then show ?thesis by (simp add: ValidateAddress_def)
next
  case True
  then have "length (drop 21 (Decode a)) = 4" by simp
  then show ?thesis
    using True by (simp add: ValidateAddress_def Let_def checksum_loop_eq length_Sum256 del: length_drop)
qed

lemma decode_loop_None:
  "\<not> set s \<subseteq> set alphabet \<Longrightarrow> decode_loop s answer j = None"
proof (induction s arbitrary: answer j)
  case Nil
  then show ?case by simp
next
  case (Cons c cs)
  show ?case
  proof (cases "c \<in> set alphabet")
    case True
    with Cons show ?thesis by simp
  next
    case False
    then show ?thesis by (simp add: b58_def)
  qed
qed

lemma Decode_invalid: "\<not> set a \<subseteq> set alphabet \<Longrightarrow> Decode a = []"
  using decode_loop_None[of "rev a" 0 1] by (simp add: Decode_def)

text \<open>
  Claim C7.  \<open>ValidateAddress\<close> is true exactly when the Base58 decoding has 25 bytes and
  its last 4 bytes are the first 4 bytes of the double SHA-256 of its first 21 bytes; an
  input with a character outside the alphabet is rejected (the function is total, nothing
  is raised); and replacing any one checksum byte of a valid address by a different byte
  gives a decoding that is rejected.
\<close>

theorem validate_iff_checksum:
  "(ValidateAddress a \<longleftrightarrow>
      length (Decode a) = 25 \<and>
      drop 21 (Decode a) = take 4 (Sum256 (Sum256 (take 21 (Decode a))))) \<and>
   (\<not> set a \<subseteq> set alphabet \<longrightarrow> \<not> ValidateAddress a) \<and>
   (\<forall>a' i b. ValidateAddress a \<and> 21 \<le> i \<and> i < 25 \<and> b \<noteq> Decode a ! i \<and>
      Decode a' = (Decode a)[i := b] \<longrightarrow> \<not> ValidateAddress a')"
proof (intro conjI allI impI)
  show "ValidateAddress a \<longleftrightarrow>
      length (Decode a) = 25 \<and>
      drop 21 (Decode a) = take 4 (Sum256 (Sum256 (take 21 (Decode a))))"
    by (rule ValidateAddress_iff)
next
  assume "\<not> set a \<subseteq> set alphabet"
  then show "\<not> ValidateAddress a"
    by (simp add: ValidateAddress_iff Decode_invalid)
next
  fix a' i b
  assume h: "ValidateAddress a \<and> 21 \<le> i \<and> i < 25 \<and> b \<noteq> Decode a ! i \<and>
      Decode a' = (Decode a)[i := b]"
  let ?d = "Decode a"
  from h have len: "length ?d = 25"
    and sum: "drop 21 ?d = take 4 (Sum256 (Sum256 (take 21 ?d)))"
    by (simp_all add: ValidateAddress_iff)
  from h have pre: "take 21 (Decode a') = take 21 ?d" by simp
  from h len have "Decode a' ! i = b" by simp
  with h len have "drop 21 (Decode a') ! (i - 21) = b" by simp
  moreover from h len have "drop 21 ?d ! (i - 21) = ?d ! i" by simp
  ultimately have "drop 21 (Decode a') \<noteq> drop 21 ?d" using h by metis
  then show "\<not> ValidateAddress a'"
    using sum pre by (simp add: ValidateAddress_iff)
qed

lemma Decode_usdt:
  "Decode ''TR7NHqjeKQxGTCi8q8ZY4pL8otSzgjLj6t'' =
     [65, 166, 20, 248, 3, 182, 253, 120, 9, 134, 164, 44, 120, 236, 156, 127, 119, 230, 222, 209, 60,
      113, 2, 119, 245]"
  by (simp add: Decode_def b58_def alphabet_def)

lemma Decode_usdt_flipped:
  "Decode ''TR7NHqjeKQxGTCi8q8ZY4pL8otSzgjLj6s'' =
     [65, 166, 20, 248, 3, 182, 253, 120, 9, 134, 164, 44, 120, 236, 156, 127, 119, 230, 222, 209, 60,
      113, 2, 119, 244]"
  by (simp add: Decode_def b58_def alphabet_def)

lemma Decode_ones: "Decode ''111111111111111111111'' = [0,0,0,0,0,0,0,0,0,0,0,0,0,0,0,0,0,0,0,0,0]"
  by (simp add: Decode_def b58_def alphabet_def)

lemma Encode_usdt21:
  "EncodeToString [65, 166, 20, 248, 3, 182, 253, 120, 9, 134, 164, 44, 120, 236, 156, 127, 119, 230, 222, 209, 60]
     = ''41a614f803b6fd780986a42c78ec9c7f77e6ded13c''"
  by code_simp

lemma Encode_usdt20:
  "EncodeToString [166, 20, 248, 3, 182, 253, 120, 9, 134, 164, 44, 120, 236, 156, 127, 119, 230, 222, 209, 60]
     = ''a614f803b6fd780986a42c78ec9c7f77e6ded13c''"
  by code_simp

lemma zeros24: "replicate 24 (CHR ''0'') = ''000000000000000000000000''"
  by (simp add: eval_nat_numeral)

theorem toCallParameter_toOwnerHex_shape_witness:
  "(AddressToParameter ''TR7NHqjeKQxGTCi8q8ZY4pL8otSzgjLj6t'' =
      Inr ''000000000000000000000000a614f803b6fd780986a42c78ec9c7f77e6ded13c'' \<and>
    length ''000000000000000000000000a614f803b6fd780986a42c78ec9c7f77e6ded13c'' = 64 \<and>
    set ''000000000000000000000000a614f803b6fd780986a42c78ec9c7f77e6ded13c'' \<subseteq> set hextable \<and>
    take 24 ''000000000000000000000000a614f803b6fd780986a42c78ec9c7f77e6ded13c'' = replicate 24 (CHR ''0'') \<and>
    DecodeString (drop 24 ''000000000000000000000000a614f803b6fd780986a42c78ec9c7f77e6ded13c'') =
      Some (take 20 (drop 1 (Decode ''TR7NHqjeKQxGTCi8q8ZY4pL8otSzgjLj6t'')))) \<and>
   (AddressToHex ''TR7NHqjeKQxGTCi8q8ZY4pL8otSzgjLj6t'' = Inr ''41a614f803b6fd780986a42c78ec9c7f77e6ded13c'' \<and>
    length ''41a614f803b6fd780986a42c78ec9c7f77e6ded13c'' = 42 \<and>
    set ''41a614f803b6fd780986a42c78ec9c7f77e6ded13c'' \<subseteq> set hextable \<and>
    DecodeString ''41a614f803b6fd780986a42c78ec9c7f77e6ded13c'' =
      Some (take 21 (Decode ''TR7NHqjeKQxGTCi8q8ZY4pL8otSzgjLj6t''))) \<and>
   (length (Decode ''TXinvalid0000000000000000000000000'') < 21 \<and>
    AddressToParameter ''TXinvalid0000000000000000000000000'' = Inl (errors_New msg_invalid_address) \<and>
    AddressToHex ''TXinvalid0000000000000000000000000'' = Inl (errors_New msg_invalid_address))"
proof (intro conjI)
  note good = toCallParameter_toOwnerHex_shape[of "''TR7NHqjeKQxGTCi8q8ZY4pL8otSzgjLj6t''"]
  note bad = toCallParameter_toOwnerHex_shape[of "''TXinvalid0000000000000000000000000''"]
  show p: "AddressToParameter ''TR7NHqjeKQxGTCi8q8ZY4pL8otSzgjLj6t'' =
     Inr ''000000000000000000000000a614f803b6fd780986a42c78ec9c7f77e6ded13c''"
    by (simp add: AddressToParameter_eq Decode_usdt Encode_usdt20 zeros24)
  show h: "AddressToHex ''TR7NHqjeKQxGTCi8q8ZY4pL8otSzgjLj6t'' = Inr ''41a614f803b6fd780986a42c78ec9c7f77e6ded13c''"
    by (simp add: AddressToHex_eq Decode_usdt Encode_usdt21)
  show b: "length (Decode ''TXinvalid0000000000000000000000000'') < 21"
    by (simp add: Decode_invalid alphabet_def)
  note P = good[THEN conjunct1, THEN spec, THEN mp, OF p]
  note H = good[THEN conjunct2, THEN conjunct1, THEN spec, THEN mp, OF h]
  from P show "length ''000000000000000000000000a614f803b6fd780986a42c78ec9c7f77e6ded13c'' = 64"
    by (rule conjunct1)
  from P show "set ''000000000000000000000000a614f803b6fd780986a42c78ec9c7f77e6ded13c'' \<subseteq> set hextable"
    by (rule conjunct2[THEN conjunct1])
  from P show "take 24 ''000000000000000000000000a614f803b6fd780986a42c78ec9c7f77e6ded13c'' = replicate 24 (CHR ''0'')"
    by (rule conjunct2[THEN conjunct2, THEN conjunct1])
  from P show "DecodeString (drop 24 ''000000000000000000000000a614f803b6fd780986a42c78ec9c7f77e6ded13c'') =
      Some (take 20 (drop 1 (Decode ''TR7NHqjeKQxGTCi8q8ZY4pL8otSzgjLj6t'')))"
    by (rule conjunct2[THEN conjunct2, THEN conjunct2])
  from H show "length ''41a614f803b6fd780986a42c78ec9c7f77e6ded13c'' = 42"
    by (rule conjunct1)
  from H show "set ''41a614f803b6fd780986a42c78ec9c7f77e6ded13c'' \<subseteq> set hextable"
    by (rule conjunct2[THEN conjunct1])
  from H show "DecodeString ''41a614f803b6fd780986a42c78ec9c7f77e6ded13c'' =
      Some (take 21 (Decode ''TR7NHqjeKQxGTCi8q8ZY4pL8otSzgjLj6t''))"
    by (rule conjunct2[THEN conjunct2])
  from bad[THEN conjunct2, THEN conjunct2, THEN conjunct1] b
  show "AddressToParameter ''TXinvalid0000000000000000000000000'' = Inl (errors_New msg_invalid_address)"
    by (rule iffD2)
  from bad[THEN conjunct2, THEN conjunct2, THEN conjunct2, THEN conjunct1] b
  show "AddressToHex ''TXinvalid0000000000000000000000000'' = Inl (errors_New msg_invalid_address)"
    by (rule iffD2)
qed

subsection \<open>API key manager\<close>

lemma scan_selects:
  "scan m s i = Inr (Inr k, m') \<Longrightarrow>
     \<exists>idx < length (keys m). Key (keys m ! idx) = k \<and> eligible (keys m ! idx) \<and>
        keys m' = (keys m)[idx := (keys m ! idx)\<lparr>Used := Used (keys m ! idx) + 1\<rparr>] \<and>
        totalUsed m' = totalUsed m + 1 \<and> current m' = (idx + 1) mod length (keys m)"
proof (induction m s i rule: scan.induct)
  case (1 m s i)
  from "1.prems" have lt: "i < length (keys m)" and cur: "current m < length (keys m)"
    by (subst (asm) scan.simps, auto split: if_splits)+
  show ?case
  proof (cases "eligible (keys m ! current m)")
    case True
    with lt cur "1.prems" show ?thesis
      by (subst (asm) scan.simps) (auto simp: eligible_def select_key_def Let_def)
  next
    case False
    let ?m' = "m\<lparr>current := (current m + 1) mod length (keys m)\<rparr>"
    from False lt cur "1.prems" have ne: "current ?m' \<noteq> s" and rec: "scan ?m' s (i + 1) = Inr (Inr k, m')"
      by (subst (asm) scan.simps, auto simp: eligible_def Let_def split: if_splits)+
    from "1.IH"[OF lt cur refl _ refl ne rec] False
    show ?thesis by (auto simp: eligible_def)
  qed
qed


lemma mod_shift_ne: "s < n \<Longrightarrow> 0 < d \<Longrightarrow> d < n \<Longrightarrow> (s + d) mod n \<noteq> (s::nat)"
proof (cases "s + d < n")
  case True
  assume "0 < d"
  with True show ?thesis by simp
next
  case False
  assume "s < n" "d < n"
  with False have "(s + d) mod n = s + d - n"
    by (simp add: le_mod_geq)
  with \<open>d < n\<close> False show ?thesis by simp
qed

lemma mod_step: "((s + i) mod n + 1) mod n = (s + (i + 1)) mod (n::nat)"
  by (simp add: mod_Suc_eq)

lemma scan_found:
  assumes "length (keys m) = n" "s < n" "i \<le> j" "j < n" "current m = (s + i) mod n"
    and "\<forall>k. i \<le> k \<and> k < j \<longrightarrow> \<not> eligible (keys m ! ((s + k) mod n))"
    and "eligible (keys m ! ((s + j) mod n))"
  shows "scan m s i =
           Inr (Inr (Key (keys m ! ((s + j) mod n))),
                (select_key m ((s + j) mod n))\<lparr>current := ((s + j) mod n + 1) mod n\<rparr>)"
  using assms
proof (induction "j - i" arbitrary: m i)
  case 0
  then have ij: "i = j" by simp
  from 0 have cur: "current m < length (keys m)" by simp
  from 0 ij cur show ?case
    by (subst scan.simps) (simp add: eligible_def Let_def)
next
  case (Suc d)
  then have lt: "i < j" by simp
  with Suc.prems have inel: "\<not> eligible (keys m ! ((s + i) mod n))" by simp
  from Suc.prems have cur: "current m < length (keys m)" by simp
  let ?m' = "m\<lparr>current := (current m + 1) mod length (keys m)\<rparr>"
  have cur': "current ?m' = (s + (i + 1)) mod n"
    using Suc.prems by (simp add: mod_Suc_eq)
  have ne: "current ?m' \<noteq> s"
    unfolding cur' using Suc.prems lt by (intro mod_shift_ne) simp_all
  have step: "scan m s i = scan ?m' s (i + 1)"
    using inel cur lt Suc.prems(1,4,5) ne
    by (subst scan.simps) (auto simp add: eligible_def Let_def)
  have "scan ?m' s (i + 1) =
           Inr (Inr (Key (keys ?m' ! ((s + j) mod n))),
                (select_key ?m' ((s + j) mod n))\<lparr>current := ((s + j) mod n + 1) mod n\<rparr>)"
  proof (rule Suc.hyps(1))
    show "d = j - (i + 1)" using Suc.hyps(2) by simp
    show "length (keys ?m') = n" using Suc.prems by simp
    show "s < n" by fact
    show "i + 1 \<le> j" using lt by simp
    show "j < n" by fact
    show "current ?m' = (s + (i + 1)) mod n" by (rule cur')
    show "\<forall>k. i + 1 \<le> k \<and> k < j \<longrightarrow> \<not> eligible (keys ?m' ! ((s + k) mod n))"
      using Suc.prems by simp
    show "eligible (keys ?m' ! ((s + j) mod n))" using Suc.prems by simp
  qed
  with step show ?case by (simp add: select_key_def)
qed

lemma scan_none:
  assumes "length (keys m) = n" "s < n" "i < n" "current m = (s + i) mod n"
    and "\<forall>k. i \<le> k \<and> k < n \<longrightarrow> \<not> eligible (keys m ! ((s + k) mod n))"
  shows "scan m s i = Inr (Inl (errors_New msg_all_limit), m\<lparr>current := s\<rparr>)"
  using assms
proof (induction "n - i" arbitrary: m i)
  case 0
  then show ?case by simp
next
  case (Suc d)
  then have inel: "\<not> eligible (keys m ! ((s + i) mod n))" by simp
  from Suc.prems have cur: "current m < length (keys m)" by simp
  let ?m' = "m\<lparr>current := (current m + 1) mod length (keys m)\<rparr>"
  have cur': "current ?m' = (s + (i + 1)) mod n"
    using Suc.prems by (simp add: mod_Suc_eq)
  show ?case
  proof (cases "i + 1 = n")
    case True
    then have "current ?m' = s" unfolding cur' using \<open>s < n\<close> by simp
    moreover from this have "?m' = m\<lparr>current := s\<rparr>" by simp
    ultimately show ?thesis
      using inel cur Suc.prems(1,3,4)
      by (subst scan.simps) (simp add: eligible_def Let_def)
  next
    case False
    with Suc.prems have lt: "i + 1 < n" by simp
    have ne: "current ?m' \<noteq> s"
      unfolding cur' using Suc.prems lt by (intro mod_shift_ne) simp_all
    have step: "scan m s i = scan ?m' s (i + 1)"
      using inel cur Suc.prems(1,3,4) ne
      by (subst scan.simps) (auto simp add: eligible_def Let_def)
    have "scan ?m' s (i + 1) = Inr (Inl (errors_New msg_all_limit), ?m'\<lparr>current := s\<rparr>)"
    proof (rule Suc.hyps(1))
      show "d = n - (i + 1)" using Suc.hyps(2) by simp
      show "length (keys ?m') = n" using Suc.prems by simp
      show "s < n" by fact
      show "i + 1 < n" by (rule lt)
      show "current ?m' = (s + (i + 1)) mod n" by (rule cur')
      show "\<forall>k. i + 1 \<le> k \<and> k < n \<longrightarrow> \<not> eligible (keys ?m' ! ((s + k) mod n))"
        using Suc.prems by simp
    qed
    with step show ?thesis by simp
  qed
qed

lemma GetNextKey_single:
  assumes "keys m = [c]"
  shows "GetNextKey m =
           (if eligible c then Inr (Inr (Key c), m\<lparr>keys := [c\<lparr>Used := Used c + 1\<rparr>], totalUsed := totalUsed m + 1\<rparr>)
            else Inr (Inl (errors_New msg_key_limit), m))"
  using assms by (simp add: GetNextKey_def select_key_def eligible_def Let_def)

lemma GetNextKey_times_single:
  assumes "keys m = [c]" "Enabled c" "Used c = int u" "MaxLimit c = int L" "u + n \<le> L"
  shows "GetNextKey_times n m =
           Inr (replicate n (Inr (Key c)),
                m\<lparr>keys := [c\<lparr>Used := int (u + n)\<rparr>], totalUsed := totalUsed m + int n\<rparr>)"
  using assms
proof (induction n arbitrary: m c u)
  case 0
  then show ?case by simp
next
  case (Suc n)
  let ?c' = "c\<lparr>Used := Used c + 1\<rparr>"
  let ?m' = "m\<lparr>keys := [?c'], totalUsed := totalUsed m + 1\<rparr>"
  from Suc.prems have el: "eligible c" by (simp add: eligible_def)
  with Suc.prems have g: "GetNextKey m = Inr (Inr (Key c), ?m')"
    by (simp add: GetNextKey_single)
  have "GetNextKey_times n ?m' =
          Inr (replicate n (Inr (Key ?c')),
               ?m'\<lparr>keys := [?c'\<lparr>Used := int (Suc u + n)\<rparr>], totalUsed := totalUsed ?m' + int n\<rparr>)"
    by (rule Suc.IH) (use Suc.prems in simp_all)
  with g show ?case by simp
qed


lemma GetNextKey_times_single_exhaust:
  assumes "keys m = [c]" "Enabled c" "Used c = int u" "MaxLimit c = int L" "u + n = L"
  shows "GetNextKey_times (Suc n) m =
           Inr (replicate n (Inr (Key c)) @ [Inl (errors_New msg_key_limit)],
                m\<lparr>keys := [c\<lparr>Used := int L\<rparr>], totalUsed := totalUsed m + int n\<rparr>)"
  using assms
proof (induction n arbitrary: m c u)
  case 0
  then have "\<not> eligible c" by (simp add: eligible_def)
  with 0 have "GetNextKey m = Inr (Inl (errors_New msg_key_limit), m)"
    by (simp add: GetNextKey_single)
  moreover from 0 have "m\<lparr>keys := [c\<lparr>Used := int L\<rparr>], totalUsed := totalUsed m + int 0\<rparr> = m"
    by simp
  ultimately show ?case by simp
next
  case (Suc n)
  let ?c' = "c\<lparr>Used := Used c + 1\<rparr>"
  let ?m' = "m\<lparr>keys := [?c'], totalUsed := totalUsed m + 1\<rparr>"
  from Suc.prems have el: "eligible c" by (simp add: eligible_def)
  with Suc.prems have g: "GetNextKey m = Inr (Inr (Key c), ?m')"
    by (simp add: GetNextKey_single)
  have "GetNextKey_times (Suc n) ?m' =
          Inr (replicate n (Inr (Key ?c')) @ [Inl (errors_New msg_key_limit)],
               ?m'\<lparr>keys := [?c'\<lparr>Used := int L\<rparr>], totalUsed := totalUsed ?m' + int n\<rparr>)"
    by (rule Suc.IH[where u = "Suc u"]) (use Suc.prems in simp_all)
  with g show ?case by (subst GetNextKey_times.simps) simp
qed

lemma GetNextKey_multi:
  assumes "2 \<le> length (keys m)"
  shows "GetNextKey m = scan m (current m) 0"
  using assms by (auto simp add: GetNextKey_def)

lemma GetNextKey_selects:
  assumes "GetNextKey m = Inr (Inr k, m')"
  shows "\<exists>idx < length (keys m). Key (keys m ! idx) = k \<and> eligible (keys m ! idx) \<and>
           keys m' = (keys m)[idx := (keys m ! idx)\<lparr>Used := Used (keys m ! idx) + 1\<rparr>]"
proof (cases "length (keys m) = 0 \<or> length (keys m) = 1")
  case True
  with assms show ?thesis
    by (auto simp: GetNextKey_def Let_def select_key_def eligible_def split: if_splits)
next
  case False
  with assms have "scan m (current m) 0 = Inr (Inr k, m')"
    by (simp add: GetNextKey_def)
  from scan_selects[OF this] show ?thesis by blast
qed

text \<open>
  Claim C4.  \<open>GetNextKey\<close> returns a key only from an entry that is enabled and whose
  \<open>Used\<close> is below its \<open>MaxLimit\<close>, and increments that entry's counter by one.  A pool
  of one enabled credential with \<open>Used = u\<close> and limit \<open>L\<close> returns the key on each
  of the next \<open>L - u\<close> calls (the first \<open>L\<close> calls when \<open>u = 0\<close>), the counter
  growing by one each time, and the call after them fails with the limit error.  With
  two or more credentials and the cursor in range, the scan from the cursor, wrapping,
  selects the first eligible entry, increments its counter, leaves the cursor one past
  it, and fails with the all-exhausted error, the pool unchanged, when no entry is
  eligible.
\<close>

theorem nextCredential_selection:
  "(\<forall>k m'. GetNextKey m = Inr (Inr k, m') \<longrightarrow>
      (\<exists>idx < length (keys m).
          Key (keys m ! idx) = k \<and> Enabled (keys m ! idx) \<and>
          Used (keys m ! idx) < MaxLimit (keys m ! idx) \<and>
          keys m' = (keys m)[idx := (keys m ! idx)\<lparr>Used := Used (keys m ! idx) + 1\<rparr>])) \<and>
   (\<forall>c u L. keys m = [c] \<and> Enabled c \<and> Used c = int u \<and> MaxLimit c = int L \<and> u \<le> L \<longrightarrow>
      (\<forall>n \<le> L - u.
          GetNextKey_times n m =
            Inr (replicate n (Inr (Key c)),
                 m\<lparr>keys := [c\<lparr>Used := int (u + n)\<rparr>], totalUsed := totalUsed m + int n\<rparr>)) \<and>
      GetNextKey_times (Suc (L - u)) m =
        Inr (replicate (L - u) (Inr (Key c)) @ [Inl (errors_New msg_key_limit)],
             m\<lparr>keys := [c\<lparr>Used := int L\<rparr>], totalUsed := totalUsed m + int (L - u)\<rparr>)) \<and>
   (2 \<le> length (keys m) \<and> current m < length (keys m) \<longrightarrow>
      (\<forall>j < length (keys m).
          eligible (keys m ! ((current m + j) mod length (keys m))) \<and>
          (\<forall>k < j. \<not> eligible (keys m ! ((current m + k) mod length (keys m)))) \<longrightarrow>
          GetNextKey m =
            Inr (Inr (Key (keys m ! ((current m + j) mod length (keys m)))),
                 (select_key m ((current m + j) mod length (keys m)))
                   \<lparr>current := ((current m + j) mod length (keys m) + 1) mod length (keys m)\<rparr>)) \<and>
      ((\<forall>k < length (keys m). \<not> eligible (keys m ! ((current m + k) mod length (keys m)))) \<longrightarrow>
          GetNextKey m = Inr (Inl (errors_New msg_all_limit), m)))"
proof (intro conjI allI impI)
  fix k m'
  assume "GetNextKey m = Inr (Inr k, m')"
  from GetNextKey_selects[OF this]
  show "\<exists>idx < length (keys m).
          Key (keys m ! idx) = k \<and> Enabled (keys m ! idx) \<and>
          Used (keys m ! idx) < MaxLimit (keys m ! idx) \<and>
          keys m' = (keys m)[idx := (keys m ! idx)\<lparr>Used := Used (keys m ! idx) + 1\<rparr>]"
    by (auto simp: eligible_def)
next
  fix c u L n
  assume h: "keys m = [c] \<and> Enabled c \<and> Used c = int u \<and> MaxLimit c = int L \<and> u \<le> L"
    and n: "n \<le> L - u"
  then have "u + n \<le> L" by linarith
  with h show "GetNextKey_times n m =
            Inr (replicate n (Inr (Key c)),
                 m\<lparr>keys := [c\<lparr>Used := int (u + n)\<rparr>], totalUsed := totalUsed m + int n\<rparr>)"
    by (intro GetNextKey_times_single) simp_all
next
  fix c u L
  assume h: "keys m = [c] \<and> Enabled c \<and> Used c = int u \<and> MaxLimit c = int L \<and> u \<le> L"
  then have "u + (L - u) = L" by linarith
  with h show "GetNextKey_times (Suc (L - u)) m =
        Inr (replicate (L - u) (Inr (Key c)) @ [Inl (errors_New msg_key_limit)],
             m\<lparr>keys := [c\<lparr>Used := int L\<rparr>], totalUsed := totalUsed m + int (L - u)\<rparr>)"
    by (intro GetNextKey_times_single_exhaust[where u = u]) blast+
next
  fix j
  assume h: "2 \<le> length (keys m) \<and> current m < length (keys m)"
    and j: "j < length (keys m)"
    and e: "eligible (keys m ! ((current m + j) mod length (keys m))) \<and>
          (\<forall>k < j. \<not> eligible (keys m ! ((current m + k) mod length (keys m))))"
  have "scan m (current m) 0 =
            Inr (Inr (Key (keys m ! ((current m + j) mod length (keys m)))),
                 (select_key m ((current m + j) mod length (keys m)))
                   \<lparr>current := ((current m + j) mod length (keys m) + 1) mod length (keys m)\<rparr>)"
    using h j e by (intro scan_found) simp_all
  with h show "GetNextKey m =
            Inr (Inr (Key (keys m ! ((current m + j) mod length (keys m)))),
                 (select_key m ((current m + j) mod length (keys m)))
                   \<lparr>current := ((current m + j) mod length (keys m) + 1) mod length (keys m)\<rparr>)"
    by (simp add: GetNextKey_multi)
next
  assume h: "2 \<le> length (keys m) \<and> current m < length (keys m)"
    and e: "\<forall>k < length (keys m). \<not> eligible (keys m ! ((current m + k) mod length (keys m)))"
  have "scan m (current m) 0 = Inr (Inl (errors_New msg_all_limit), m\<lparr>current := current m\<rparr>)"
    using h e by (intro scan_none[where n = "length (keys m)"]) auto
  with h show "GetNextKey m = Inr (Inl (errors_New msg_all_limit), m)"
    by (simp add: GetNextKey_multi)
qed


theorem nextCredential_selection_witness:
  "GetNextKey_times 4 pool1 =
     Inr ([Inr ''k1'', Inr ''k1'', Inr ''k1'', Inl (errors_New msg_key_limit)],
          pool1\<lparr>keys := [\<lparr>Key = ''k1'', Used = 3, MaxLimit = 3, Enabled = True\<rparr>], totalUsed := 3\<rparr>) \<and>
   GetNextKey pool2 =
     Inr (Inr ''k2'',
          pool2\<lparr>keys := [\<lparr>Key = ''k1'', Used = 5, MaxLimit = 5, Enabled = True\<rparr>,
                            \<lparr>Key = ''k2'', Used = 2, MaxLimit = 5, Enabled = True\<rparr>],
                  current := 0, totalUsed := 7\<rparr>) \<and>
   (\<exists>idx < length (keys pool2). Key (keys pool2 ! idx) = ''k2'' \<and>
        Used (keys pool2 ! idx) < MaxLimit (keys pool2 ! idx))"
proof -
  note single = nextCredential_selection[of pool1, THEN conjunct2, THEN conjunct1,
      THEN spec[of _ "\<lparr>Key = ''k1'', Used = 0, MaxLimit = 3, Enabled = True\<rparr>"],
      THEN spec[of _ 0], THEN spec[of _ 3], THEN mp, THEN conjunct2]
  note multi = nextCredential_selection[of pool2, THEN conjunct2, THEN conjunct2, THEN mp,
      THEN conjunct1, THEN spec[of _ 1], THEN mp, THEN mp]
  note sound = nextCredential_selection[of pool2, THEN conjunct1, rule_format]
  have a: "GetNextKey_times 4 pool1 =
     Inr ([Inr ''k1'', Inr ''k1'', Inr ''k1'', Inl (errors_New msg_key_limit)],
          pool1\<lparr>keys := [\<lparr>Key = ''k1'', Used = 3, MaxLimit = 3, Enabled = True\<rparr>], totalUsed := 3\<rparr>)"
    using single by (simp add: pool1_def eval_nat_numeral)
  have b: "GetNextKey pool2 =
     Inr (Inr ''k2'',
          pool2\<lparr>keys := [\<lparr>Key = ''k1'', Used = 5, MaxLimit = 5, Enabled = True\<rparr>,
                            \<lparr>Key = ''k2'', Used = 2, MaxLimit = 5, Enabled = True\<rparr>],
                  current := 0, totalUsed := 7\<rparr>)"
    using multi by (simp add: pool2_def eligible_def select_key_def)
  from sound[OF b] have c: "\<exists>idx < length (keys pool2). Key (keys pool2 ! idx) = ''k2'' \<and>
        Used (keys pool2 ! idx) < MaxLimit (keys pool2 ! idx)" by blast
  from a b c show ?thesis by blast
qed

subsection \<open>Rate limiter\<close>

lemma quot_nonneg: "0 \<le> a \<Longrightarrow> 0 < b \<Longrightarrow> 0 \<le> quot a b"
  by (simp add: quot_def pos_imp_zdiv_nonneg_iff)

lemma Wait_twelve:
  "Wait_calls (take 12 burst) (NewRateLimiter 12 1000000000 0) =
     Inr \<lparr>rate = 12, interval = 1000000000, tokens = 0, maxTokens = 12, lastRefill = 0\<rparr>"
  by (simp add: burst_def NewRateLimiter_def Wait_def refill_def refill_after_sleep_def quot_def Let_def)

text \<open>
  Claim C2, at the failing input: the thirteenth call finds no token, sleeps once, is
  granted no token by the second refill, and still decrements: the count is \<open>-1\<close>.
\<close>

theorem Wait_thirteenth_call_negative:
  "Wait_calls burst (NewRateLimiter 12 1000000000 0) =
     Inr \<lparr>rate = 12, interval = 1000000000, tokens = - 1, maxTokens = 12, lastRefill = 83346333\<rparr>"
  by (simp add: burst_def NewRateLimiter_def Wait_def refill_def refill_after_sleep_def quot_def Let_def)

text \<open>
  What does hold: with a positive rate and interval and a clock that has advanced when
  the sleep ends, \<^verbatim>\<open>Wait\<close> returns, takes exactly one token from what the refills left,
  and keeps the count between \<open>-1\<close> and \<open>maxTokens - 1\<close>.
\<close>

lemma refill_bounds:
  assumes "0 < rate rl" "0 < interval rl" "tokens rl \<le> maxTokens rl"
  shows "\<exists>rl1. refill now rl = Inr rl1 \<and> tokens rl \<le> tokens rl1 \<and> tokens rl1 \<le> maxTokens rl1 \<and>
           rate rl1 = rate rl \<and> interval rl1 = interval rl \<and> maxTokens rl1 = maxTokens rl \<and>
           (lastRefill rl1 = lastRefill rl \<or> lastRefill rl1 = now)"
  using assms by (auto simp: refill_def Let_def)

lemma Wait_bounds:
  assumes "0 < rate rl" "0 < interval rl" "0 \<le> maxTokens rl"
    and "- 1 \<le> tokens rl" "tokens rl \<le> maxTokens rl"
    and "lastRefill rl \<le> now" "now < now'"
  shows "\<exists>rl'. Wait now now' rl = Inr rl' \<and> - 1 \<le> tokens rl' \<and> tokens rl' \<le> maxTokens rl' - 1 \<and>
           rate rl' = rate rl \<and> interval rl' = interval rl \<and> maxTokens rl' = maxTokens rl \<and>
           lastRefill rl' \<le> now'"
proof -
  from refill_bounds[OF assms(1,2,5), of now] obtain rl1 where
    r1: "refill now rl = Inr rl1" "tokens rl \<le> tokens rl1" "tokens rl1 \<le> maxTokens rl1"
      "rate rl1 = rate rl" "interval rl1 = interval rl" "maxTokens rl1 = maxTokens rl"
      "lastRefill rl1 = lastRefill rl \<or> lastRefill rl1 = now"
    by blast
  then have el: "0 < now' - lastRefill rl1" using assms(6,7) by auto
  show ?thesis
  proof (cases "tokens rl1 \<le> 0")
    case False
    with r1 assms show ?thesis by (auto simp: Wait_def)
  next
    case True
    have q: "0 \<le> quot (now' - lastRefill rl1) (interval rl1) * rate rl1"
      using el assms(1,2) r1 by (simp add: quot_nonneg)
    with True r1 assms el show ?thesis
      by (auto simp: Wait_def refill_after_sleep_def Let_def)
  qed
qed

lemma Wait_no_panic:
  assumes "rate rl \<noteq> 0" "interval rl \<noteq> 0"
  shows "\<exists>rl'. Wait now now' rl = Inr rl'"
proof -
  have "\<exists>rl1. refill now rl = Inr rl1 \<and> rate rl1 = rate rl \<and> interval rl1 = interval rl"
    using assms by (simp add: refill_def Let_def)
  then obtain rl1 where r1: "refill now rl = Inr rl1" "rate rl1 = rate rl" "interval rl1 = interval rl"
    by blast
  with assms have "\<exists>rl2. refill_after_sleep now' rl1 = Inr rl2"
    by (auto simp: refill_after_sleep_def Let_def)
  with r1 show ?thesis by (auto simp: Wait_def)
qed

subsection \<open>API client\<close>

lemma digit_val_table: "d < 10 \<Longrightarrow> digit_val (''0123456789'' ! d) = d"
proof -
  have "list_all (\<lambda>k. digit_val (''0123456789'' ! k) = k) [0..<10]"
    by code_simp
  moreover assume "d < 10"
  ultimately show ?thesis by (simp add: list_all_iff)
qed

lemma digit_table_mem: "d < 10 \<Longrightarrow> ''0123456789'' ! d \<in> set ''0123456789''"
  by (rule nth_mem) simp

lemma digits_value_snoc: "digits_value b (ds @ [c]) = digits_value b ds * b + digit_val c"
  by (simp add: digits_value_def)

lemma digit_val_zero: "digit_val (CHR ''0'') = 0"
  by (simp add: digit_val_def)

lemma digits_value_zeros: "digits_value b (replicate k (CHR ''0'') @ ds) = digits_value b ds"
proof -
  have "foldl (\<lambda>acc c. acc * b + digit_val c) 0 (replicate k (CHR ''0'')) = 0"
    by (induction k) (simp_all add: digit_val_zero)
  then show ?thesis by (simp add: digits_value_def)
qed

lemma digits_value_append_zeros:
  "digits_value 10 (ds @ replicate k (CHR ''0'')) = digits_value 10 ds * 10 ^ k"
proof (induction k)
  case 0
  then show ?case by simp
next
  case (Suc k)
  have "digits_value 10 (ds @ replicate (Suc k) (CHR ''0'')) =
        digits_value 10 ((ds @ replicate k (CHR ''0'')) @ [CHR ''0''])"
    by (simp add: replicate_append_same)
  also have "\<dots> = digits_value 10 (ds @ replicate k (CHR ''0'')) * 10 + digit_val (CHR ''0'')"
    by (rule digits_value_snoc)
  finally show ?case using Suc by (simp add: digit_val_zero)
qed

lemma dec_value_dec_digits: "dec_value (dec_digits n) = n"
proof (induction n rule: dec_digits.induct)
  case (1 n)
  show ?case
  proof (cases "n < 10")
    case True
    then show ?thesis
      by (subst dec_digits.simps) (simp add: dec_value_def digits_value_def digit_val_table)
  next
    case False
    with 1 have "dec_value (dec_digits (n div 10)) = n div 10" by simp
    with False show ?thesis
      by (subst dec_digits.simps) (simp add: dec_value_def digits_value_snoc digit_val_table)
  qed
qed

lemma set_dec_digits: "set (dec_digits n) \<subseteq> set ''0123456789''"
proof (induction n rule: dec_digits.induct)
  case (1 n)
  show ?case
  proof (cases "n < 10")
    case True
    with digit_table_mem[of n] show ?thesis
      by (subst dec_digits.simps) simp
  next
    case False
    with 1 have "set (dec_digits (n div 10)) \<subseteq> set ''0123456789''" by simp
    with False digit_table_mem[of "n mod 10"] show ?thesis
      by (subst dec_digits.simps) simp
  qed
qed

lemma length_dec_digits: "0 < k \<Longrightarrow> n < 10 ^ k \<Longrightarrow> length (dec_digits n) \<le> k"
proof (induction n arbitrary: k rule: dec_digits.induct)
  case (1 n)
  show ?case
  proof (cases "n < 10")
    case True
    with 1(2) show ?thesis by (subst dec_digits.simps) simp
  next
    case False
    with 1(3) have k: "1 < k" by (cases "k = 1") (use 1(2) in auto)
    then obtain k' where k': "k = Suc k'" "0 < k'" by (cases k) auto
    with 1(3) have "n div 10 < 10 ^ k'" by (simp add: less_mult_imp_div_less mult.commute)
    with 1(1)[OF False k'(2)] have "length (dec_digits (n div 10)) \<le> k'" by simp
    with False k' show ?thesis by (subst dec_digits.simps) simp
  qed
qed

lemma length_Sprintf_0d: "0 < k \<Longrightarrow> r < 10 ^ k \<Longrightarrow> length (Sprintf_0d k (int r)) = k"
  using length_dec_digits[of k r] by (simp add: Sprintf_0d_def)

lemma dec_value_Sprintf_0d: "dec_value (Sprintf_0d k (int r)) = r"
  by (simp add: Sprintf_0d_def dec_value_def digits_value_zeros)
    (simp add: dec_value_dec_digits[unfolded dec_value_def])

lemma TrimRight0_decomp: "\<exists>k. s = TrimRight0 s @ replicate k (CHR ''0'')"
proof -
  have "rev s = takeWhile (\<lambda>c. c = CHR ''0'') (rev s) @ dropWhile (\<lambda>c. c = CHR ''0'') (rev s)"
    by simp
  moreover have "takeWhile (\<lambda>c. c = CHR ''0'') (rev s) =
      replicate (length (takeWhile (\<lambda>c. c = CHR ''0'') (rev s))) (CHR ''0'')"
    by (rule replicate_length_same[symmetric]) (auto dest: set_takeWhileD)
  ultimately have "rev s = replicate (length (takeWhile (\<lambda>c. c = CHR ''0'') (rev s))) (CHR ''0'')
      @ dropWhile (\<lambda>c. c = CHR ''0'') (rev s)" by simp
  then have "rev (rev s) = rev (replicate (length (takeWhile (\<lambda>c. c = CHR ''0'') (rev s))) (CHR ''0'')
      @ dropWhile (\<lambda>c. c = CHR ''0'') (rev s))" by (rule arg_cong)
  then show ?thesis by (auto simp: TrimRight0_def)
qed

lemma TrimRight0_last: "TrimRight0 s \<noteq> [] \<Longrightarrow> last (TrimRight0 s) \<noteq> CHR ''0''"
proof -
  assume ne: "TrimRight0 s \<noteq> []"
  then have d: "dropWhile (\<lambda>c. c = CHR ''0'') (rev s) \<noteq> []" by (simp add: TrimRight0_def)
  then have "hd (dropWhile (\<lambda>c. c = CHR ''0'') (rev s)) \<noteq> CHR ''0''"
    using hd_dropWhile[of "\<lambda>c. c = CHR ''0''" "rev s"] by blast
  with d show ?thesis by (simp add: TrimRight0_def last_rev)
qed

lemma frac_part:
  assumes "r < 10 ^ 6"
  shows "length (TrimRight0 (Sprintf_0d 6 (int r))) \<le> 6 \<and>
         dec_value (TrimRight0 (Sprintf_0d 6 (int r))) * 10 ^ (6 - length (TrimRight0 (Sprintf_0d 6 (int r)))) = r \<and>
         (TrimRight0 (Sprintf_0d 6 (int r)) = [] \<longleftrightarrow> r = 0)"
proof -
  let ?s = "Sprintf_0d 6 (int r)"
  let ?f = "TrimRight0 ?s"
  from TrimRight0_decomp[of ?s] obtain k where k: "?s = ?f @ replicate k (CHR ''0'')" by blast
  have len: "length ?s = 6" using assms by (simp add: length_Sprintf_0d)
  with k have lk: "length ?f + k = 6" by (metis length_append length_replicate)
  have "dec_value ?s = dec_value ?f * 10 ^ k"
    by (subst k) (simp add: dec_value_def digits_value_append_zeros)
  then have v: "dec_value ?f * 10 ^ k = r" by (simp add: dec_value_Sprintf_0d)
  have "r = 0" if "?f = []"
    using v that by (simp add: dec_value_def digits_value_def)
  moreover have "?f = []" if "r = 0"
    using that by (simp add: Sprintf_0d_def TrimRight0_def dec_digits.simps eval_nat_numeral)
  moreover have "6 - length ?f = k" using lk by simp
  ultimately show ?thesis using lk v by auto
qed

lemma is_hex_digit_val: "is_hex c \<Longrightarrow> digit_val c < 16 \<and> c \<noteq> CHR ''+'' \<and> c \<noteq> CHR ''-''"
  by (auto simp: is_hex_def digit_val_def)

lemma SetString_hex:
  assumes "ds \<noteq> []" "\<forall>c \<in> set ds. is_hex c"
  shows "SetString ds 16 = Some (int (digits_value 16 ds))"
proof -
  from assms obtain c r where ds: "ds = c # r" by (cases ds) auto
  with assms have "c \<noteq> CHR ''+''" "c \<noteq> CHR ''-''" by (auto dest: is_hex_digit_val)
  moreover from assms have "\<not> (\<exists>c \<in> set ds. 16 \<le> digit_val c)"
    by (auto dest: is_hex_digit_val simp: not_le)
  ultimately show ?thesis using ds by (simp add: SetString_def)
qed

lemma formatDecimals_nonneg:
  "formatDecimals (int n) 6 =
     dec_digits (n div 10 ^ 6) @
       (if n mod 10 ^ 6 = 0 then [] else ''.'' @ TrimRight0 (Sprintf_0d 6 (int (n mod 10 ^ 6))))"
proof -
  have d: "int n div 10 ^ 6 = int (n div 10 ^ 6)" and m: "int n mod 10 ^ 6 = int (n mod 10 ^ 6)"
    by (simp_all add: zdiv_int zmod_int)
  have "n mod 10 ^ 6 < 10 ^ 6" by simp
  from frac_part[OF this] show ?thesis
    unfolding formatDecimals_def Let_def d m by (simp add: String_def)
qed

lemma parse_balance_hex:
  assumes "\<forall>c \<in> set (TrimSpace s). is_hex c"
  shows "parse_balance s = Inr (formatDecimals (int (digits_value 16 (TrimSpace s))) 6)"
proof (cases "TrimSpace s = []")
  case True
  have "SetString ''0'' 16 = Some 0"
    by (simp add: SetString_def digits_value_def digit_val_def)
  with True show ?thesis by (simp add: parse_balance_def digits_value_def)
next
  case False
  with assms show ?thesis by (simp add: parse_balance_def SetString_hex)
qed

lemma send_loop_step:
  assumes "i < maxRetries" "\<not> ctx_done w i" "\<not> ok200 (do w req i)"
  shows "\<exists>resp' e' sl'. (e' \<or> (\<exists>r. resp' = Some r \<and> StatusCode r \<noteq> 200)) \<and>
           send_loop w req i resp e sl = send_loop w req (i + 1) resp' e' sl'"
proof (cases "do w req i")
  case (Do_ok r)
  with assms show ?thesis
    by (subst send_loop.simps) (auto simp: ok200_def status_is_def Let_def)
next
  case (Do_err ro)
  with assms show ?thesis
    by (subst send_loop.simps) (auto simp: ok200_def status_is_def Let_def)
qed

lemma send_loop_break:
  assumes "i < maxRetries" "\<not> ctx_done w i" "ok200 (do w req i)"
  shows "\<exists>r. do w req i = Do_ok r \<and> StatusCode r = 200 \<and>
           send_loop w req i resp e sl = \<lparr>exit = Left (Some r) False, calls = i + 1, sleeps = sl\<rparr>"
  using assms
  by (subst send_loop.simps) (auto simp: ok200_def status_is_def Let_def split: do_result.splits)

lemma send_loop_cancel:
  assumes "i < maxRetries" "ctx_done w i"
  shows "send_loop w req i resp e sl = \<lparr>exit = Cancelled, calls = i, sleeps = sl\<rparr>"
  using assms by (subst send_loop.simps) simp

lemma send_loop_end:
  assumes "\<not> i < maxRetries"
  shows "send_loop w req i resp e sl = \<lparr>exit = Left resp e, calls = i, sleeps = sl\<rparr>"
  using assms by (subst send_loop.simps) simp

lemma calls_bounds:
  "i \<le> calls (send_loop w req i resp e sl) \<and> calls (send_loop w req i resp e sl) \<le> max i maxRetries"
proof (induction "maxRetries - i" arbitrary: i resp e sl)
  case 0
  then show ?case by (simp add: send_loop_end)
next
  case (Suc d)
  then have lt: "i < maxRetries" by simp
  show ?case
  proof (cases "ctx_done w i")
    case True
    with lt show ?thesis by (simp add: send_loop_cancel)
  next
    case nc: False
    show ?thesis
    proof (cases "ok200 (do w req i)")
      case True
      from send_loop_break[OF lt nc True, of resp e sl] lt show ?thesis by auto
    next
      case False
      from send_loop_step[OF lt nc False, of resp e sl] obtain resp' e' sl' where
        eq: "send_loop w req i resp e sl = send_loop w req (i + 1) resp' e' sl'" by blast
      from Suc have "d = maxRetries - (i + 1)" by simp
      from Suc.hyps(1)[OF this, of resp' e' sl'] lt show ?thesis unfolding eq by auto
    qed
  qed
qed

lemma calls_char:
  assumes "i \<le> k" "k < maxRetries"
  shows "k < calls (send_loop w req i resp e sl) \<longleftrightarrow>
           (\<forall>j. i \<le> j \<and> j < k \<longrightarrow> \<not> ok200 (do w req j)) \<and> (\<forall>j. i \<le> j \<and> j \<le> k \<longrightarrow> \<not> ctx_done w j)"
  using assms
proof (induction "maxRetries - i" arbitrary: i resp e sl)
  case 0
  then show ?case by simp
next
  case (Suc d)
  then have lt: "i < maxRetries" by simp
  show ?case
  proof (cases "ctx_done w i")
    case True
    with lt Suc.prems show ?thesis by (auto simp: send_loop_cancel)
  next
    case nc: False
    show ?thesis
    proof (cases "ok200 (do w req i)")
      case True
      from send_loop_break[OF lt nc True, of resp e sl]
      have c: "calls (send_loop w req i resp e sl) = i + 1" by auto
      show ?thesis
      proof (cases "k = i")
        case True
        with c nc show ?thesis by auto
      next
        case False
        with Suc.prems have "i < k" by simp
        with c True show ?thesis by auto
      qed
    next
      case False
      from send_loop_step[OF lt nc False, of resp e sl] obtain resp' e' sl' where
        eq: "send_loop w req i resp e sl = send_loop w req (i + 1) resp' e' sl'" by blast
      from Suc have d: "d = maxRetries - (i + 1)" by simp
      show ?thesis
      proof (cases "k = i")
        case True
        with calls_bounds[of "i + 1" w req resp' e' sl'] nc show ?thesis unfolding eq by auto
      next
        case ne: False
        with Suc.prems have ik: "i + 1 \<le> k" by simp
        have split1: "(\<forall>j. i \<le> j \<and> j < k \<longrightarrow> \<not> ok200 (do w req j)) \<longleftrightarrow>
            (\<forall>j. i + 1 \<le> j \<and> j < k \<longrightarrow> \<not> ok200 (do w req j))"
          using False by (metis Suc_eq_plus1 Suc_leI le_neq_implies_less Suc_leD)
        have split2: "(\<forall>j. i \<le> j \<and> j \<le> k \<longrightarrow> \<not> ctx_done w j) \<longleftrightarrow>
            (\<forall>j. i + 1 \<le> j \<and> j \<le> k \<longrightarrow> \<not> ctx_done w j)"
          using nc by (metis Suc_eq_plus1 Suc_leI le_neq_implies_less Suc_leD)
        from Suc.hyps(1)[OF d ik Suc.prems(2), of resp' e' sl'] show ?thesis
          unfolding eq split1 split2 .
      qed
    qed
  qed
qed

text \<open>The loop is left by the first attempt that returns status 200, if the context is live until then.\<close>

lemma exit_first_200:
  assumes "i \<le> k" "k < maxRetries"
    "\<forall>j. i \<le> j \<and> j < k \<longrightarrow> \<not> ok200 (do w req j)" "\<forall>j. i \<le> j \<and> j \<le> k \<longrightarrow> \<not> ctx_done w j"
    "do w req k = Do_ok r" "StatusCode r = 200"
  shows "exit (send_loop w req i resp e sl) = Left (Some r) False"
  using assms(1,3,4)
proof (induction "k - i" arbitrary: i resp e sl)
  case 0
  then have ik: "i = k" by simp
  from assms(2) ik have lt: "i < maxRetries" by simp
  from 0(4) ik have nc: "\<not> ctx_done w i" by simp
  from assms(5,6) ik have ok: "ok200 (do w req i)" by (simp add: ok200_def)
  from send_loop_break[OF lt nc ok, of resp e sl] assms(5) ik show ?case by auto
next
  case (Suc d)
  then have ik: "i < k" by simp
  with assms(2) have lt: "i < maxRetries" by simp
  from Suc.prems(3) ik have nc: "\<not> ctx_done w i" by simp
  from Suc.prems(2) ik have bad: "\<not> ok200 (do w req i)" by simp
  from send_loop_step[OF lt nc bad, of resp e sl] obtain resp' e' sl' where
    eq: "send_loop w req i resp e sl = send_loop w req (i + 1) resp' e' sl'" by blast
  from Suc(2) have d: "d = k - (i + 1)" by simp
  from ik have le: "i + 1 \<le> k" by simp
  have a: "\<forall>j. i + 1 \<le> j \<and> j < k \<longrightarrow> \<not> ok200 (do w req j)" using Suc.prems(2) by simp
  have b: "\<forall>j. i + 1 \<le> j \<and> j \<le> k \<longrightarrow> \<not> ctx_done w j" using Suc.prems(3) by simp
  from Suc.hyps(1)[OF d le a b, of resp' e' sl'] show ?case unfolding eq .
qed

text \<open>The waits of the loop: one after each attempt that does not end it.\<close>

lemma send_loop_pause:
  assumes "i < maxRetries" "\<not> ctx_done w i" "\<not> ok200 (do w req i)"
  shows "\<exists>resp' e'. send_loop w req i resp e sl =
           send_loop w req (i + 1) resp' e' (sl @ pause_after i (do w req i))"
proof (cases "do w req i")
  case (Do_ok r)
  with assms show ?thesis
    by (subst send_loop.simps) (auto simp: ok200_def status_is_def pause_after_def Let_def)
next
  case (Do_err ro)
  with assms show ?thesis
    by (subst send_loop.simps) (auto simp: ok200_def pause_after_def Let_def)
qed

lemma sleeps_char:
  "sleeps (send_loop w req i resp e sl) =
     sl @ concat (map (\<lambda>j. pause_after j (do w req j))
                   (filter (\<lambda>j. \<not> ok200 (do w req j)) [i ..< calls (send_loop w req i resp e sl)]))"
proof (induction "maxRetries - i" arbitrary: i resp e sl)
  case 0
  then show ?case by (simp add: send_loop_end)
next
  case (Suc d)
  then have lt: "i < maxRetries" by simp
  show ?case
  proof (cases "ctx_done w i")
    case True
    with lt show ?thesis by (simp add: send_loop_cancel)
  next
    case nc: False
    show ?thesis
    proof (cases "ok200 (do w req i)")
      case True
      from send_loop_break[OF lt nc True, of resp e sl] True show ?thesis by auto
    next
      case False
      from send_loop_pause[OF lt nc False, of resp e sl] obtain resp' e' where
        eq: "send_loop w req i resp e sl =
             send_loop w req (i + 1) resp' e' (sl @ pause_after i (do w req i))" by blast
      let ?R = "send_loop w req (i + 1) resp' e' (sl @ pause_after i (do w req i))"
      from Suc have d: "d = maxRetries - (i + 1)" by simp
      from calls_bounds[of "i + 1" w req resp' e' "sl @ pause_after i (do w req i)"]
      have "i < calls ?R" by simp
      then have u: "[i ..< calls ?R] = i # [i + 1 ..< calls ?R]" by (simp add: upt_conv_Cons)
      from Suc.hyps(1)[OF d, of resp' e' "sl @ pause_after i (do w req i)"] False
      show ?thesis unfolding eq u by simp
    qed
  qed
qed

text \<open>How the loop is left: cancelled, by a 200 response, or with a failed last attempt.\<close>

lemma exit_char:
  assumes "e \<or> (\<exists>r. resp = Some r \<and> StatusCode r \<noteq> 200) \<or> i < maxRetries"
  shows "exit (send_loop w req i resp e sl) = Cancelled \<or>
         (\<exists>r. exit (send_loop w req i resp e sl) = Left (Some r) False \<and> StatusCode r = 200 \<and>
            i < calls (send_loop w req i resp e sl) \<and>
            do w req (calls (send_loop w req i resp e sl) - 1) = Do_ok r) \<or>
         (\<exists>resp' e'. exit (send_loop w req i resp e sl) = Left resp' e' \<and>
            (e' \<or> (\<exists>r. resp' = Some r \<and> StatusCode r \<noteq> 200)))"
  using assms
proof (induction "maxRetries - i" arbitrary: i resp e sl)
  case 0
  then show ?case by (simp add: send_loop_end)
next
  case (Suc d)
  then have lt: "i < maxRetries" by simp
  show ?case
  proof (cases "ctx_done w i")
    case True
    with lt show ?thesis by (simp add: send_loop_cancel)
  next
    case nc: False
    show ?thesis
    proof (cases "ok200 (do w req i)")
      case True
      from send_loop_break[OF lt nc True, of resp e sl] show ?thesis by auto
    next
      case False
      from send_loop_step[OF lt nc False, of resp e sl] obtain resp' e' sl' where
        inv: "e' \<or> (\<exists>r. resp' = Some r \<and> StatusCode r \<noteq> 200)"
        and eq: "send_loop w req i resp e sl = send_loop w req (i + 1) resp' e' sl'" by blast
      from Suc have d: "d = maxRetries - (i + 1)" by simp
      from inv have inv': "e' \<or> (\<exists>r. resp' = Some r \<and> StatusCode r \<noteq> 200) \<or> i + 1 < maxRetries"
        by blast
      from Suc.hyps(1)[OF d inv', of sl'] show ?thesis
        unfolding eq by auto
    qed
  qed
qed

lemma check_response_top_error:
  "Error_field r \<noteq> [] \<Longrightarrow> check_response r = Inl (errors_New msg_api_error)"
  by (simp add: check_response_def Let_def)

lemma check_response_result_false:
  "Error_field r = [] \<Longrightarrow> \<not> Result_Result r \<Longrightarrow> check_response r = Inl (errors_New msg_query_failed)"
  by (simp add: check_response_def Let_def)

lemma check_response_no_constant_result:
  "Error_field r = [] \<Longrightarrow> Result_Result r \<Longrightarrow> ConstantResult r = [] \<Longrightarrow>
     check_response r = Inl (errors_New msg_no_constant_result)"
  by (simp add: check_response_def)

lemma query_result:
  assumes "AddressToParameter a = Inr param" "url_ok w (BaseURL c)"
  shows "(\<exists>e. query w c a = Inr (Inl e)) \<or>
         (\<exists>b r. query w c a = Inr (Inr b) \<and> StatusCode r = 200 \<and>
            0 < calls (send_request w (build_request c a param)) \<and>
            do w (build_request c a param) (calls (send_request w (build_request c a param)) - 1) = Do_ok r)"
proof -
  let ?req = "build_request c a param"
  let ?R = "send_request w ?req"
  have q: "query w c a =
      (case exit ?R of
         Cancelled \<Rightarrow> Inr (Inl (errors_New msg_cancelled_req))
       | Left resp lastErr \<Rightarrow>
           if lastErr then Inr (Inl (errors_New msg_req_failed))
           else
             (case resp of
                None \<Rightarrow> Inl NilDereference
              | Some r \<Rightarrow>
                  if StatusCode r \<noteq> 200 then Inr (Inl (errors_New msg_api_http))
                  else
                    (case Body r of
                       ReadFails \<Rightarrow> Inr (Inl (errors_New msg_read_failed))
                     | NotJSON \<Rightarrow> Inr (Inl (errors_New msg_parse_failed))
                     | JSON a \<Rightarrow> Inr (check_response a))))"
    using assms by (simp add: query_def)
  have "maxRetries = 3" by (simp add: maxRetries_def)
  then have "False \<or> (\<exists>r. (None :: Response option) = Some r \<and> StatusCode r \<noteq> 200) \<or> 0 < maxRetries"
    by simp
  from exit_char[OF this, of w ?req "[]", folded send_request_def]
  consider (cancel) "exit ?R = Cancelled"
    | (ok) r where "exit ?R = Left (Some r) False" "StatusCode r = 200" "0 < calls ?R"
        "do w ?req (calls ?R - 1) = Do_ok r"
    | (bad) resp' e' where "exit ?R = Left resp' e'" "e' \<or> (\<exists>r. resp' = Some r \<and> StatusCode r \<noteq> 200)"
    by blast
  then show ?thesis
  proof cases
    case cancel
    then show ?thesis by (simp add: q)
  next
    case ok
    show ?thesis
    proof (cases "Body r")
      case ReadFails
      with ok show ?thesis by (simp add: q)
    next
      case NotJSON
      with ok show ?thesis by (simp add: q)
    next
      case (JSON x)
      show ?thesis
      proof (cases "check_response x")
        case (Inl e)
        with ok JSON show ?thesis by (simp add: q)
      next
        case (Inr b)
        with ok JSON have "query w c a = Inr (Inr b)" by (simp add: q)
        with ok show ?thesis by blast
      qed
    qed
  next
    case bad
    then show ?thesis by (auto simp add: q)
  qed
qed

lemma query_no_panic: "query w c a \<noteq> Inl p"
proof (cases "AddressToParameter a")
  case (Inl err)
  then show ?thesis by (simp add: query_def)
next
  case (Inr param)
  show ?thesis
  proof (cases "url_ok w (BaseURL c)")
    case True
    from query_result[OF Inr True] show ?thesis by auto
  next
    case False
    with Inr show ?thesis by (simp add: query_def)
  qed
qed

lemma check_response_first:
  assumes "Error_field resp = []" "Result_Result resp" "ConstantResult resp = s # rest"
  shows "check_response resp = parse_balance s"
  using assms by (simp add: check_response_def)

lemma check_response_error:
  "Error_field x \<noteq> [] \<or> \<not> Result_Result x \<or> ConstantResult x = [] \<Longrightarrow> \<exists>e. check_response x = Inl e"
  by (auto simp: check_response_def Let_def)

lemma query_after_200:
  assumes "AddressToParameter a = Inr param" "url_ok w (BaseURL c)" "k < 3"
    "\<forall>j \<le> k. \<not> ctx_done w j" "\<forall>j < k. \<not> ok200 (do w (build_request c a param) j)"
    "do w (build_request c a param) k = Do_ok rsp" "StatusCode rsp = 200"
  shows "query w c a =
           (case Body rsp of
              ReadFails \<Rightarrow> Inr (Inl (errors_New msg_read_failed))
            | NotJSON \<Rightarrow> Inr (Inl (errors_New msg_parse_failed))
            | JSON x \<Rightarrow> Inr (check_response x))"
proof -
  have k: "k < maxRetries" using assms(3) by (simp add: maxRetries_def)
  have "exit (send_request w (build_request c a param)) = Left (Some rsp) False"
    unfolding send_request_def
    by (rule exit_first_200[OF _ k _ _ assms(6,7)]) (use assms(4,5) in simp_all)
  with assms(1,2,7) show ?thesis by (simp add: query_def)
qed

lemma query_first_200:
  assumes "AddressToParameter a = Inr param" "url_ok w (BaseURL c)" "k < 3"
    "\<forall>j \<le> k. \<not> ctx_done w j" "\<forall>j < k. \<not> ok200 (do w (build_request c a param) j)"
    "do w (build_request c a param) k = Do_ok rsp" "StatusCode rsp = 200" "Body rsp = JSON resp"
  shows "query w c a = Inr (check_response resp)"
  using query_after_200[OF assms(1-7)] assms(8) by simp

lemma QueryBalance_of_query:
  assumes "rate (Limiter c) \<noteq> 0" "interval (Limiter c) \<noteq> 0" "query w c a = Inr res"
  shows "\<exists>c'. QueryBalanceWithContext w c a = Inr (res, c')"
proof -
  from Wait_no_panic[OF assms(1,2)] obtain rl where "Wait (t_enter w) (t_wake w) (Limiter c) = Inr rl"
    by blast
  with assms(3) show ?thesis by (simp add: QueryBalanceWithContext_def)
qed

text \<open>
  Claim C6.  Let \<open>s\<close> be a string that, once trimmed of white space, consists of
  hexadecimal digits (or is empty, which counts as zero), \<open>n\<close> the value of its digits in
  base 16, \<open>q = n div 10^6\<close> and \<open>r = n mod 10^6\<close>.  Its rendering is the decimal digits
  of \<open>q\<close>, followed, only when \<open>r\<close> is not zero, by a point and the six-digit
  zero-padded \<open>r\<close> without its trailing zeros.  The rendering is exact for every \<open>n\<close>: the
  integer digits read back as \<open>q\<close>, and the fraction digits \<open>f\<close>, at most six and not
  ending in \<open>0\<close>, read back as \<open>r / 10^(6 - length f)\<close>.  The rendering of the first element
  of \<^verbatim>\<open>constant_result\<close> is what the client returns: for an answer without a top-level
  error, with a true result flag and with \<open>s\<close> as the first element of \<^verbatim>\<open>constant_result\<close>,
  whatever follows it, the checks on the answer yield the rendering of \<open>s\<close>, and so does
  the whole call when attempt \<open>k\<close> is the first to return status 200 and carries that
  answer.
\<close>

theorem balance_rendering_exact:
  "\<lbrakk>\<forall>c \<in> set (TrimSpace s). is_hex c; n = digits_value 16 (TrimSpace s);
    q = n div 10 ^ 6; r = n mod 10 ^ 6; f = TrimRight0 (Sprintf_0d 6 (int r))\<rbrakk> \<Longrightarrow>
   parse_balance s = Inr (dec_digits q @ (if r = 0 then [] else ''.'' @ f)) \<and>
   set (dec_digits q) \<subseteq> set ''0123456789'' \<and> dec_value (dec_digits q) = q \<and>
   length (Sprintf_0d 6 (int r)) = 6 \<and> set (Sprintf_0d 6 (int r)) \<subseteq> set ''0123456789'' \<and>
   dec_value (Sprintf_0d 6 (int r)) = r \<and>
   (r \<noteq> 0 \<longrightarrow> f \<noteq> [] \<and> last f \<noteq> CHR ''0'' \<and> length f \<le> 6 \<and>
                dec_value f * 10 ^ (6 - length f) = r) \<and>
   (TrimSpace s = [] \<longrightarrow> parse_balance s = Inr ''0'') \<and>
   (\<forall>(resp::apiResp) rest. Error_field resp = [] \<and> Result_Result resp \<and> ConstantResult resp = s # rest \<longrightarrow>
      check_response resp = Inr (dec_digits q @ (if r = 0 then [] else ''.'' @ f)) \<and>
      (\<forall>(w::world) (c::APIClient) a param k (rsp::Response).
         AddressToParameter a = Inr param \<and> url_ok w (BaseURL c) \<and> k < 3 \<and>
         (\<forall>j \<le> k. \<not> ctx_done w j) \<and> (\<forall>j < k. \<not> ok200 (do w (build_request c a param) j)) \<and>
         do w (build_request c a param) k = Do_ok rsp \<and> StatusCode rsp = 200 \<and> Body rsp = JSON resp \<longrightarrow>
         query w c a = Inr (Inr (dec_digits q @ (if r = 0 then [] else ''.'' @ f))) \<and>
         (rate (Limiter c) \<noteq> 0 \<and> interval (Limiter c) \<noteq> 0 \<longrightarrow>
            (\<exists>c'. QueryBalanceWithContext w c a =
                    Inr (Inr (dec_digits q @ (if r = 0 then [] else ''.'' @ f)), c')))))"
proof -
  assume hex: "\<forall>c \<in> set (TrimSpace s). is_hex c" and n: "n = digits_value 16 (TrimSpace s)"
    and q: "q = n div 10 ^ 6" and r: "r = n mod 10 ^ 6" and f: "f = TrimRight0 (Sprintf_0d 6 (int r))"
  let ?b = "dec_digits q @ (if r = 0 then [] else ''.'' @ f)"
  have rlt: "r < 10 ^ 6" using r by simp
  note fp = frac_part[OF rlt, folded f]
  have 1: "parse_balance s = Inr ?b"
    using parse_balance_hex[OF hex] by (simp add: formatDecimals_nonneg n q r f)
  have 2: "set (Sprintf_0d 6 (int r)) \<subseteq> set ''0123456789''"
    using set_dec_digits[of r] by (auto simp: Sprintf_0d_def)
  have 3: "r \<noteq> 0 \<longrightarrow> f \<noteq> [] \<and> last f \<noteq> CHR ''0'' \<and> length f \<le> 6 \<and>
                dec_value f * 10 ^ (6 - length f) = r"
    using fp TrimRight0_last[of "Sprintf_0d 6 (int r)"] f by auto
  have 4: "TrimSpace s = [] \<longrightarrow> parse_balance s = Inr ''0''"
  proof
    assume e: "TrimSpace s = []"
    then have "n = 0" by (simp add: n digits_value_def)
    with 1 q r show "parse_balance s = Inr ''0''" by (simp add: dec_digits.simps)
  qed
  have 5: "\<forall>(resp::apiResp) rest. Error_field resp = [] \<and> Result_Result resp \<and> ConstantResult resp = s # rest \<longrightarrow>
      check_response resp = Inr ?b \<and>
      (\<forall>(w::world) (c::APIClient) a param k (rsp::Response).
         AddressToParameter a = Inr param \<and> url_ok w (BaseURL c) \<and> k < 3 \<and>
         (\<forall>j \<le> k. \<not> ctx_done w j) \<and> (\<forall>j < k. \<not> ok200 (do w (build_request c a param) j)) \<and>
         do w (build_request c a param) k = Do_ok rsp \<and> StatusCode rsp = 200 \<and> Body rsp = JSON resp \<longrightarrow>
         query w c a = Inr (Inr ?b) \<and>
         (rate (Limiter c) \<noteq> 0 \<and> interval (Limiter c) \<noteq> 0 \<longrightarrow>
            (\<exists>c'. QueryBalanceWithContext w c a = Inr (Inr ?b, c'))))"
  proof (intro allI impI conjI)
    fix resp :: apiResp and rest
    assume h: "Error_field resp = [] \<and> Result_Result resp \<and> ConstantResult resp = s # rest"
    then show cr: "check_response resp = Inr ?b"
      using check_response_first[of resp s rest] 1 by simp
    fix w :: world and c :: APIClient and a param k and rsp :: Response
    assume g: "AddressToParameter a = Inr param \<and> url_ok w (BaseURL c) \<and> k < 3 \<and>
         (\<forall>j \<le> k. \<not> ctx_done w j) \<and> (\<forall>j < k. \<not> ok200 (do w (build_request c a param) j)) \<and>
         do w (build_request c a param) k = Do_ok rsp \<and> StatusCode rsp = 200 \<and> Body rsp = JSON resp"
    then have "query w c a = Inr (check_response resp)"
      using query_first_200[of a param w c k rsp resp] by blast
    with cr show qr: "query w c a = Inr (Inr ?b)" by simp
    assume "rate (Limiter c) \<noteq> 0 \<and> interval (Limiter c) \<noteq> 0"
    with QueryBalance_of_query[OF _ _ qr]
    show "\<exists>c'. QueryBalanceWithContext w c a = Inr (Inr ?b, c')" by blast
  qed
  from 1 2 3 4 show ?thesis
    using set_dec_digits[of q] dec_value_dec_digits[of q] length_Sprintf_0d[OF _ rlt]
      dec_value_Sprintf_0d[of 6 r] 5
    by simp
qed

text \<open>
  What holds of the request loop for every server and every context.  At most 3 attempts
  are made.  Attempt \<open>k\<close> is made exactly when the context is live and no earlier attempt
  returned status 200 without an error: a 429 response, a transport error and any other
  response are all followed by another attempt.  The waits are those of \<open>pause_after\<close>, one
  after each attempt that does not end the loop.  The call never ends in a nil
  dereference; it returns a balance only when its last attempt returned status 200, so
  when no attempt does, and when the address or the request cannot be built, it returns
  an error.  When attempt \<open>k\<close> is the first to return status 200 no further attempt is
  made, and a body that cannot be read or parsed, or an answer that reports a failure or
  has no \<^verbatim>\<open>constant_result\<close>, gives an error.
\<close>

theorem retry_policy:
  "calls (send_request w req) \<le> 3 \<and>
   (\<forall>k < 3. k < calls (send_request w req) \<longleftrightarrow>
      (\<forall>j < k. \<not> ok200 (do w req j)) \<and> (\<forall>j \<le> k. \<not> ctx_done w j)) \<and>
   query w c a \<noteq> Inl p \<and>
   (\<forall>b param. query w c a = Inr (Inr b) \<and> AddressToParameter a = Inr param \<longrightarrow>
      (\<exists>r. StatusCode r = 200 \<and> 0 < calls (send_request w (build_request c a param)) \<and>
           do w (build_request c a param) (calls (send_request w (build_request c a param)) - 1) = Do_ok r)) \<and>
   ((\<exists>err. AddressToParameter a = Inl err) \<or> \<not> url_ok w (BaseURL c) \<longrightarrow> (\<exists>e. query w c a = Inr (Inl e))) \<and>
   (\<forall>param. AddressToParameter a = Inr param \<and>
      (\<forall>j < calls (send_request w (build_request c a param)). \<not> ok200 (do w (build_request c a param) j)) \<longrightarrow>
      (\<exists>e. query w c a = Inr (Inl e))) \<and>
   sleeps (send_request w req) =
     concat (map (\<lambda>j. pause_after j (do w req j))
              (filter (\<lambda>j. \<not> ok200 (do w req j)) [0 ..< calls (send_request w req)])) \<and>
   (\<forall>param k rsp. AddressToParameter a = Inr param \<and> url_ok w (BaseURL c) \<and> k < 3 \<and>
      (\<forall>j \<le> k. \<not> ctx_done w j) \<and> (\<forall>j < k. \<not> ok200 (do w (build_request c a param) j)) \<and>
      do w (build_request c a param) k = Do_ok rsp \<and> StatusCode rsp = 200 \<longrightarrow>
      calls (send_request w (build_request c a param)) = k + 1 \<and>
      (Body rsp = ReadFails \<longrightarrow> query w c a = Inr (Inl (errors_New msg_read_failed))) \<and>
      (Body rsp = NotJSON \<longrightarrow> query w c a = Inr (Inl (errors_New msg_parse_failed))) \<and>
      (\<forall>x. Body rsp = JSON x \<longrightarrow> query w c a = Inr (check_response x) \<and>
         (Error_field x \<noteq> [] \<or> \<not> Result_Result x \<or> ConstantResult x = [] \<longrightarrow>
            (\<exists>e. query w c a = Inr (Inl e)))))"
proof (intro conjI allI impI)
  show "calls (send_request w req) \<le> 3"
    using calls_bounds[of 0 w req None False "[]"] by (simp add: send_request_def maxRetries_def)
next
  fix k :: nat
  assume "k < 3"
  then have "k < maxRetries" by (simp add: maxRetries_def)
  from calls_char[OF _ this, of 0 w req None False "[]"]
  show "k < calls (send_request w req) \<longleftrightarrow>
      (\<forall>j < k. \<not> ok200 (do w req j)) \<and> (\<forall>j \<le> k. \<not> ctx_done w j)"
    by (simp add: send_request_def)
next
  show "query w c a \<noteq> Inl p"
    by (rule query_no_panic)
next
  fix b param
  assume h: "query w c a = Inr (Inr b) \<and> AddressToParameter a = Inr param"
  then have "url_ok w (BaseURL c)" by (auto simp: query_def split: if_splits)
  with h query_result[of a param w c]
  show "\<exists>r. StatusCode r = 200 \<and> 0 < calls (send_request w (build_request c a param)) \<and>
           do w (build_request c a param) (calls (send_request w (build_request c a param)) - 1) = Do_ok r"
    by auto
next
  assume "(\<exists>err. AddressToParameter a = Inl err) \<or> \<not> url_ok w (BaseURL c)"
  then show "\<exists>e. query w c a = Inr (Inl e)"
    by (auto simp: query_def split: sum.splits)
next
  fix param
  assume h: "AddressToParameter a = Inr param \<and>
      (\<forall>j < calls (send_request w (build_request c a param)). \<not> ok200 (do w (build_request c a param) j))"
  show "\<exists>e. query w c a = Inr (Inl e)"
  proof (cases "url_ok w (BaseURL c)")
    case True
    let ?R = "send_request w (build_request c a param)"
    from h query_result[of a param w c, OF _ True]
    consider "\<exists>e. query w c a = Inr (Inl e)"
      | r where "StatusCode r = 200" "0 < calls ?R" "do w (build_request c a param) (calls ?R - 1) = Do_ok r"
      by blast
    then show ?thesis
    proof cases
      case 1
      then show ?thesis .
    next
      case 2
      then have "ok200 (do w (build_request c a param) (calls ?R - 1))" by (simp add: ok200_def)
      moreover from 2 have "calls ?R - 1 < calls ?R" by simp
      ultimately show ?thesis using h by blast
    qed
  next
    case False
    with h show ?thesis by (simp add: query_def)
  qed
next
  show "sleeps (send_request w req) =
     concat (map (\<lambda>j. pause_after j (do w req j))
              (filter (\<lambda>j. \<not> ok200 (do w req j)) [0 ..< calls (send_request w req)]))"
    using sleeps_char[of w req 0 None False "[]"] by (simp add: send_request_def)
next
  fix param k and rsp :: Response
  assume g: "AddressToParameter a = Inr param \<and> url_ok w (BaseURL c) \<and> k < 3 \<and>
      (\<forall>j \<le> k. \<not> ctx_done w j) \<and> (\<forall>j < k. \<not> ok200 (do w (build_request c a param) j)) \<and>
      do w (build_request c a param) k = Do_ok rsp \<and> StatusCode rsp = 200"
  let ?req = "build_request c a param"
  from g have q: "query w c a =
           (case Body rsp of
              ReadFails \<Rightarrow> Inr (Inl (errors_New msg_read_failed))
            | NotJSON \<Rightarrow> Inr (Inl (errors_New msg_parse_failed))
            | JSON x \<Rightarrow> Inr (check_response x))"
    using query_after_200[of a param w c k rsp] by blast
  from g have km: "k < maxRetries" by (simp add: maxRetries_def)
  from g have ok: "ok200 (do w ?req k)" by (simp add: ok200_def)
  have "k < calls (send_request w ?req)"
    using calls_char[of 0 k w ?req None False "[]"] km g by (simp add: send_request_def)
  moreover have "\<not> k + 1 < calls (send_request w ?req)"
  proof (cases "k + 1 < maxRetries")
    case True
    from calls_char[of 0 "k + 1" w ?req None False "[]"] True ok show ?thesis
      by (auto simp: send_request_def)
  next
    case False
    with calls_bounds[of 0 w ?req None False "[]"] show ?thesis
      by (simp add: send_request_def)
  qed
  ultimately show "calls (send_request w ?req) = k + 1" by simp
  show "query w c a = Inr (Inl (errors_New msg_read_failed))" if "Body rsp = ReadFails"
    using q that by simp
  show "query w c a = Inr (Inl (errors_New msg_parse_failed))" if "Body rsp = NotJSON"
    using q that by simp
  fix x
  assume b: "Body rsp = JSON x"
  with q show qx: "query w c a = Inr (check_response x)" by simp
  assume "Error_field x \<noteq> [] \<or> \<not> Result_Result x \<or> ConstantResult x = []"
  from check_response_error[OF this] qx show "\<exists>e. query w c a = Inr (Inl e)" by auto
qed

subsection \<open>API client: concrete runs\<close>

lemma param_usdt:
  "AddressToParameter USDTContractAddress =
     Inr ''000000000000000000000000a614f803b6fd780986a42c78ec9c7f77e6ded13c''"
  by (simp add: USDTContractAddress_def AddressToParameter_eq Decode_usdt Encode_usdt20 zeros24)

lemma build_req0:
  "build_request client0 USDTContractAddress
     ''000000000000000000000000a614f803b6fd780986a42c78ec9c7f77e6ded13c'' = req0"
  by (simp add: req0_def)

lemma send_const_fail:
  assumes "\<not> ok200 d"
  shows "calls (send_request (world_of d) req) = 3"
proof -
  have "2 < calls (send_request (world_of d) req)"
    using calls_char[of 0 2 "world_of d" req None False "[]"] assms
    by (simp add: send_request_def maxRetries_def world_of_def)
  moreover have "calls (send_request (world_of d) req) \<le> 3"
    using calls_bounds[of 0 "world_of d" req None False "[]"]
    by (simp add: send_request_def maxRetries_def)
  ultimately show ?thesis by simp
qed

lemma send_500:
  "send_request (world_of (Do_ok resp500)) req =
     \<lparr>exit = Left (Some resp500) False, calls = 3, sleeps = []\<rparr>"
  by (simp add: send_request_def send_loop.simps world_of_def maxRetries_def status_is_def resp500_def)

lemma send_429:
  "send_request (world_of (Do_ok resp429)) req =
     \<lparr>exit = Left (Some resp429) False, calls = 3, sleeps = [2, 4, 6]\<rparr>"
  by (simp add: send_request_def send_loop.simps world_of_def maxRetries_def status_is_def resp429_def)

lemma send_transport_error:
  "send_request (world_of (Do_err None)) req =
     \<lparr>exit = Left None True, calls = 3, sleeps = [1, 2]\<rparr>"
  by (simp add: send_request_def send_loop.simps world_of_def maxRetries_def status_is_def)

text \<open>
  Claim C3, at the failing input: a server that answers every attempt with status 500.
  The response is neither a 429 nor a transport error, yet the loop body falls through to
  the next iteration: three attempts are made, with no wait between them, before the
  error for the HTTP status is returned.  For comparison, the two retry branches wait
  2, 4 and 6 seconds (status 429) and 1 and 2 seconds (transport error).
\<close>

theorem status_500_is_retried:
  "do (world_of (Do_ok resp500)) req0 0 = Do_ok resp500 \<and> StatusCode resp500 = 500 \<and>
   calls (send_request (world_of (Do_ok resp500)) req0) = 3 \<and>
   sleeps (send_request (world_of (Do_ok resp500)) req0) = [] \<and>
   query (world_of (Do_ok resp500)) client0 USDTContractAddress = Inr (Inl (errors_New msg_api_http)) \<and>
   StatusCode resp429 = 429 \<and>
   calls (send_request (world_of (Do_ok resp429)) req0) = 3 \<and>
   sleeps (send_request (world_of (Do_ok resp429)) req0) = [2, 4, 6] \<and>
   calls (send_request (world_of (Do_err None)) req0) = 3 \<and>
   sleeps (send_request (world_of (Do_err None)) req0) = [1, 2]"
  by (simp add: send_500 send_429 send_transport_error query_def param_usdt build_req0)
     (simp add: world_of_def resp500_def resp429_def)


lemmas eval_balance = parse_balance_def TrimSpace_def trim_left.simps space_len_def spaces_def SetString_def
  digits_value_def digit_val_def formatDecimals_def String_def Sprintf_0d_def TrimRight0_def
  dec_digits.simps Let_def

lemma parse_balance_2_64:
  "parse_balance ''0000000000000000000000000000000000000000000000010000000000000000'' =
     Inr ''18446744073709.551616''"
  by (simp add: eval_balance)

lemma send_200:
  "StatusCode r = 200 \<Longrightarrow>
   send_request (world_of (Do_ok r)) req = \<lparr>exit = Left (Some r) False, calls = 1, sleeps = []\<rparr>"
  by (simp add: send_request_def send_loop.simps world_of_def maxRetries_def status_is_def)

lemma query_200:
  "query (world_of (Do_ok \<lparr>StatusCode = 200, Body = JSON a\<rparr>)) client0 USDTContractAddress =
     Inr (check_response a)"
  by (simp add: query_def param_usdt send_200) (simp add: world_of_def)

lemma query_balance_2_64:
  "query (world_of (Do_ok \<lparr>StatusCode = 200, Body = JSON resp_balance\<rparr>)) client0 USDTContractAddress =
     Inr (Inr ''18446744073709.551616'')"
  by (simp add: query_200 check_response_def resp_balance_def parse_balance_2_64)

theorem retry_policy_witness:
  "\<not> ok200 (do (world_of (Do_ok resp500)) req0 0) \<and>
   1 < calls (send_request (world_of (Do_ok resp500)) req0) \<and>
   (\<exists>e. query (world_of (Do_ok resp500)) client0 USDTContractAddress = Inr (Inl e)) \<and>
   query (world_of (Do_ok \<lparr>StatusCode = 200, Body = JSON resp_balance\<rparr>)) client0 USDTContractAddress =
     Inr (Inr ''18446744073709.551616'') \<and>
   (\<exists>r. StatusCode r = 200 \<and>
      do (world_of (Do_ok \<lparr>StatusCode = 200, Body = JSON resp_balance\<rparr>)) req0
        (calls (send_request (world_of (Do_ok \<lparr>StatusCode = 200, Body = JSON resp_balance\<rparr>)) req0) - 1) = Do_ok r)"
proof (intro conjI)
  let ?w5 = "world_of (Do_ok resp500)"
  let ?wok = "world_of (Do_ok \<lparr>StatusCode = 200, Body = JSON resp_balance\<rparr>)"
  note bad = retry_policy[of ?w5 req0 client0 USDTContractAddress IndexOutOfRange]
  note good = retry_policy[of ?wok req0 client0 USDTContractAddress IndexOutOfRange]
  show n: "\<not> ok200 (do ?w5 req0 0)"
    by (simp add: world_of_def ok200_def resp500_def)
  have "(\<forall>j < 1. \<not> ok200 (do ?w5 req0 j)) \<and> (\<forall>j \<le> 1. \<not> ctx_done ?w5 j)"
    using n by (simp add: world_of_def)
  with bad[THEN conjunct2, THEN conjunct1, THEN spec[of _ 1]]
  show "1 < calls (send_request ?w5 req0)" by simp
  have "AddressToParameter USDTContractAddress =
          Inr ''000000000000000000000000a614f803b6fd780986a42c78ec9c7f77e6ded13c'' \<and>
        (\<forall>j < calls (send_request ?w5 (build_request client0 USDTContractAddress
              ''000000000000000000000000a614f803b6fd780986a42c78ec9c7f77e6ded13c'')).
            \<not> ok200 (do ?w5 (build_request client0 USDTContractAddress
              ''000000000000000000000000a614f803b6fd780986a42c78ec9c7f77e6ded13c'') j))"
    by (simp add: param_usdt) (simp add: world_of_def ok200_def resp500_def)
  with bad[THEN conjunct2, THEN conjunct2, THEN conjunct2, THEN conjunct2, THEN conjunct2, THEN conjunct1,
      THEN spec, THEN mp]
  show "\<exists>e. query ?w5 client0 USDTContractAddress = Inr (Inl e)" .
  show q: "query ?wok client0 USDTContractAddress = Inr (Inr ''18446744073709.551616'')"
    by (rule query_balance_2_64)
  from q param_usdt
  have "query ?wok client0 USDTContractAddress = Inr (Inr ''18446744073709.551616'') \<and>
        AddressToParameter USDTContractAddress =
          Inr ''000000000000000000000000a614f803b6fd780986a42c78ec9c7f77e6ded13c''" by simp
  from good[THEN conjunct2, THEN conjunct2, THEN conjunct2, THEN conjunct1, THEN spec, THEN spec, THEN mp, OF this]
  show "\<exists>r. StatusCode r = 200 \<and>
      do ?wok req0 (calls (send_request ?wok req0) - 1) = Do_ok r"
    unfolding build_req0 by blast
qed

text \<open>
  Claim C5, at the failing input: for an answer with a top-level error the message is the
  format string itself; neither the error description nor the error name occurs in it.
\<close>

theorem top_level_error_text_dropped:
  "check_response resp_top_error = Inl (errors_New msg_api_error) \<and>
   query (world_of (Do_ok \<lparr>StatusCode = 200, Body = JSON resp_top_error\<rparr>)) client0 USDTContractAddress =
     Inr (Inl (errors_New msg_api_error)) \<and>
   \<not> sublist ''No contract or not a smart contract'' (Error (errors_New msg_api_error)) \<and>
   \<not> sublist ''class org.tron.core.exception.ContractValidateException'' (Error (errors_New msg_api_error))"
proof (intro conjI)
  show c: "check_response resp_top_error = Inl (errors_New msg_api_error)"
    by (simp add: check_response_top_error resp_top_error_def)
  show "query (world_of (Do_ok \<lparr>StatusCode = 200, Body = JSON resp_top_error\<rparr>)) client0 USDTContractAddress =
     Inr (Inl (errors_New msg_api_error))"
    by (simp add: query_200 c)
  show "\<not> sublist ''No contract or not a smart contract'' (Error (errors_New msg_api_error))"
    by code_simp
  show "\<not> sublist ''class org.tron.core.exception.ContractValidateException'' (Error (errors_New msg_api_error))"
    by code_simp
qed

theorem balance_rendering_exact_witness:
  "TrimSpace '' 10000000000000000 '' = ''10000000000000000'' \<and>
   digits_value 16 (TrimSpace '' 10000000000000000 '') = 18446744073709551616 \<and>
   parse_balance '' 10000000000000000 '' = Inr ''18446744073709.551616'' \<and>
   dec_value ''18446744073709'' = 18446744073709 \<and>
   dec_value ''551616'' = 551616 \<and>
   ConstantResult resp_two = ['' 10000000000000000 '', ''ff''] \<and>
   check_response resp_two = Inr ''18446744073709.551616'' \<and>
   query (world_of (Do_ok \<lparr>StatusCode = 200, Body = JSON resp_two\<rparr>)) client0 USDTContractAddress =
     Inr (Inr ''18446744073709.551616'') \<and>
   (\<exists>c'. QueryBalanceWithContext (world_of (Do_ok \<lparr>StatusCode = 200, Body = JSON resp_two\<rparr>)) client0
           USDTContractAddress = Inr (Inr ''18446744073709.551616'', c'))"
proof -
  let ?w = "world_of (Do_ok \<lparr>StatusCode = 200, Body = JSON resp_two\<rparr>)"
  let ?p = "''000000000000000000000000a614f803b6fd780986a42c78ec9c7f77e6ded13c''"
  have t: "TrimSpace '' 10000000000000000 '' = ''10000000000000000''"
    by (simp add: TrimSpace_def trim_left.simps space_len_def spaces_def)
  have h: "\<forall>c \<in> set (TrimSpace '' 10000000000000000 ''). is_hex c"
    by (simp add: t is_hex_def)
  have n: "(18446744073709551616::nat) = digits_value 16 (TrimSpace '' 10000000000000000 '')"
    by (simp add: t digits_value_def digit_val_def)
  have q: "(18446744073709::nat) = 18446744073709551616 div 10 ^ 6" by simp
  have r: "(551616::nat) = 18446744073709551616 mod 10 ^ 6" by simp
  have f: "''551616'' = TrimRight0 (Sprintf_0d 6 (int 551616))"
    by (simp add: Sprintf_0d_def TrimRight0_def dec_digits.simps)
  have d: "dec_digits 18446744073709 = ''18446744073709''"
    by (simp add: dec_digits.simps)
  note main = balance_rendering_exact[OF h n q r f]
  have first: "parse_balance '' 10000000000000000 '' = Inr ''18446744073709.551616'' \<and>
      dec_value ''18446744073709'' = 18446744073709 \<and> dec_value ''551616'' = 551616"
    using main by (simp add: d f[symmetric])
  have c2: "ConstantResult resp_two = ['' 10000000000000000 '', ''ff'']"
    by (simp add: resp_two_def)
  have e: "Error_field resp_two = [] \<and> Result_Result resp_two \<and>
      ConstantResult resp_two = '' 10000000000000000 '' # [''ff'']"
    by (simp add: resp_two_def)
  note link = main[THEN conjunct2, THEN conjunct2, THEN conjunct2, THEN conjunct2, THEN conjunct2,
      THEN conjunct2, THEN conjunct2, THEN conjunct2, THEN spec, THEN spec, THEN mp, OF e]
  from link[THEN conjunct1] have cr: "check_response resp_two = Inr ''18446744073709.551616''"
    by (simp add: d)
  have g: "AddressToParameter USDTContractAddress = Inr ?p \<and> url_ok ?w (BaseURL client0) \<and> (0::nat) < 3 \<and>
      (\<forall>j \<le> 0. \<not> ctx_done ?w j) \<and> (\<forall>j < 0. \<not> ok200 (do ?w (build_request client0 USDTContractAddress ?p) j)) \<and>
      do ?w (build_request client0 USDTContractAddress ?p) 0 = Do_ok \<lparr>StatusCode = 200, Body = JSON resp_two\<rparr> \<and>
      StatusCode \<lparr>StatusCode = 200, Body = JSON resp_two\<rparr> = 200 \<and>
      Body \<lparr>StatusCode = 200, Body = JSON resp_two\<rparr> = JSON resp_two"
    by (simp add: param_usdt) (simp add: world_of_def)
  note at = link[THEN conjunct2, THEN spec, THEN spec, THEN spec, THEN spec, THEN spec, THEN spec, THEN mp, OF g]
  from at[THEN conjunct1]
  have qr: "query ?w client0 USDTContractAddress = Inr (Inr ''18446744073709.551616'')"
    by (simp add: d)
  have "rate (Limiter client0) \<noteq> 0 \<and> interval (Limiter client0) \<noteq> 0"
    by (simp add: client0_def NewAPIClient_def NewRateLimiter_def)
  from at[THEN conjunct2, THEN mp, OF this]
  have qb: "\<exists>c'. QueryBalanceWithContext ?w client0 USDTContractAddress =
      Inr (Inr ''18446744073709.551616'', c')"
    by (simp add: d)
  from t n first c2 cr qr qb show ?thesis by simp
qed

subsection \<open>Batch run\<close>






lemma Status_pending_result [simp]: "Status (pending_result a) = ''pending''"
  by (simp add: pending_result_def)

lemma terminal_results [simp]:
  "terminal (cancelled_result a)" "terminal (error_result a m)" "terminal (success_result a b)"
  "terminal (query_result_of a res)" "\<not> terminal (pending_result a)"
  by (auto simp: terminal_def cancelled_result_def error_result_def success_result_def
      query_result_of_def pending_result_def split: sum.splits)

lemma Address_results [simp]:
  "Address (cancelled_result a) = a" "Address (error_result a m) = a" "Address (success_result a b) = a"
  "Address (query_result_of a res) = a" "Address (pending_result a) = a"
  by (auto simp: cancelled_result_def error_result_def success_result_def
      query_result_of_def pending_result_def split: sum.splits)

























subsection \<open>Batch run: the outcome of a cancelled batch\<close>




lemma rtranclp_relpowp: "r\<^sup>*\<^sup>* s s' \<Longrightarrow> \<exists>n. (r ^^ n) s s'"
  by (simp add: rtranclp_power)






lemma processed_query_result [simp]: "processed (query_result_of a res)"
  by (auto simp: processed_def query_result_of_def error_result_def success_result_def split: sum.splits)












lemma QueryBalance_first:
  "QueryBalanceWithContext world_ok (make_client [] ''key-1'' 0) USDTContractAddress =
     Inr (Inr ''18446744073709.551616'',
          client0\<lparr>Limiter := \<lparr>rate = 12, interval = 1000000000, tokens = 11, maxTokens = 12, lastRefill = 0\<rparr>\<rparr>)"
proof -
  have w: "Wait (t_enter world_ok) (t_wake world_ok) (Limiter client0) =
      Inr \<lparr>rate = 12, interval = 1000000000, tokens = 11, maxTokens = 12, lastRefill = 0\<rparr>"
    by (simp add: world_ok_def world_of_def client0_def NewAPIClient_def NewRateLimiter_def
        Wait_def refill_def quot_def Let_def)
  have c: "make_client [] ''key-1'' 0 = client0"
    by (simp add: make_client_def client0_def)
  show ?thesis
    unfolding c QueryBalanceWithContext_def w
    by (simp add: world_ok_def query_balance_2_64)
qed

lemma GetNextKey_pool_one: "GetNextKey pool_one = Inr (Inr ''key-1'', pool_one_used)"
  by (simp add: GetNextKey_def pool_one_def pool_one_used_def key1_def select_key_def)

lemma run_to_first_done:
  "(step [] addrs5)\<^sup>*\<^sup>* (start pool_one 1 False addrs5) run_first_done"
proof -
  let ?s0 = "start pool_one 1 False addrs5"
  let ?s1 = "?s0\<lparr>workers := (workers ?s0)[0 := Holding (next_job ?s0)], next_job := next_job ?s0 + 1\<rparr>"
  let ?s2 = "?s1\<lparr>workers := (workers ?s1)[0 := Querying 0 ''key-1''], keyManager := pool_one_used\<rparr>"
  let ?s3 = "record_result ?s2 0 0 (query_result_of (addrs5 ! 0) (Inr ''18446744073709.551616''))"
  have 1: "step [] addrs5 ?s0 ?s1"
    by (rule step.send) (simp_all add: start_def addrs5_def)
  have 2: "step [] addrs5 ?s1 ?s2"
    by (rule step.worker_key[where i = 0])
       (simp_all add: start_def addrs5_def GetNextKey_pool_one)
  have 3: "step [] addrs5 ?s2 ?s3"
    by (rule step.worker_query[where i = 0 and apiKey = "''key-1''" and wd = world_ok and now = 0])
       (simp_all add: start_def addrs5_def QueryBalance_first)
  have e: "?s3 = run_first_done"
    by (simp add: run_first_done_def results_after_first_def start_def addrs5_def record_result_def
        query_result_of_def)
  have a: "(step [] addrs5)\<^sup>*\<^sup>* ?s0 ?s1" using 1 by (rule r_into_rtranclp)
  have b: "(step [] addrs5)\<^sup>*\<^sup>* ?s0 ?s2" using a 2 by (rule rtranclp.rtrancl_into_rtrancl)
  have c: "(step [] addrs5)\<^sup>*\<^sup>* ?s0 ?s3" using b 3 by (rule rtranclp.rtrancl_into_rtrancl)
  show ?thesis using c unfolding e .
qed

lemma run_after_cancel:
  "(step [] addrs5)\<^sup>*\<^sup>* (run_first_done\<lparr>cancelled := True\<rparr>) run_final"
proof -
  let ?s4 = "run_first_done\<lparr>cancelled := True\<rparr>"
  let ?s5 = "?s4\<lparr>jobs_closed := True\<rparr>"
  let ?s6 = "?s5\<lparr>workers := (workers ?s5)[0 := Exited]\<rparr>"
  have 5: "step [] addrs5 ?s4 ?s5"
    by (rule step.sender_stop) (simp_all add: run_first_done_def addrs5_def)
  have 6: "step [] addrs5 ?s5 ?s6"
    by (rule step.worker_exit) (simp_all add: run_first_done_def)
  have e: "?s6 = run_final"
    by (simp add: run_first_done_def run_final_def)
  have a: "(step [] addrs5)\<^sup>*\<^sup>* ?s4 ?s5" using 5 by (rule r_into_rtranclp)
  have b: "(step [] addrs5)\<^sup>*\<^sup>* ?s4 ?s6" using a 6 by (rule rtranclp.rtrancl_into_rtrancl)
  show ?thesis using b unfolding e .
qed

lemma cancel_after_first: "step [] addrs5 run_first_done (run_first_done\<lparr>cancelled := True\<rparr>)"
  by (rule step.cancel) (simp add: run_first_done_def)


lemma returned_run_final: "returned run_final"
  by (simp add: returned_def run_final_def)








lemma statuses_after_second:
  "map Status results_after_second = [''success'', ''success'', ''pending'', ''pending'', ''pending'']"
  by (simp add: results_after_second_def addrs5_def success_result_def pending_result_def)



subsection \<open>Statistics of a batch\<close>

lemma filter_partition3:
  "length (filter P rs) + length (filter Q rs) + length (filter (\<lambda>r. \<not> P r \<and> \<not> Q r) rs) = length rs"
  if "\<And>r. \<not> (P r \<and> Q r)"
  using that by (induction rs) auto

lemma steps_to_run_final: "(step [] addrs5)\<^sup>*\<^sup>* (start pool_one 1 False addrs5) run_final"
proof -
  have mid: "(step [] addrs5)\<^sup>*\<^sup>* (start pool_one 1 False addrs5) (run_first_done\<lparr>cancelled := True\<rparr>)"
    using run_to_first_done cancel_after_first by (rule rtranclp.rtrancl_into_rtrancl)
  show ?thesis using mid run_after_cancel by (rule rtranclp_trans)
qed

lemma GetStats_eq:
  "GetStats rs =
     (length rs, length (filter (\<lambda>r. Status r = ''success'') rs),
      length (filter (\<lambda>r. Status r = ''error'') rs))"
  by (simp add: GetStats_def stats_loop_counts)

lemma GetStats_run_final: "GetStats (results run_final) = (5, 1, 0)"
  by (simp add: GetStats_eq run_final_def results_after_first_def addrs5_def success_result_def
      pending_result_def)

text \<open>
  Claim C10.  \<open>GetStats\<close> returns the number of results, the number whose status is
  \<open>success\<close> and the number whose status is \<open>error\<close>; every other result (cancelled,
  pending) is counted in the total only, so the three kinds add up to the total, and
  there is a batch, cancelled after its first result, for which succeeded plus failed is
  below the total when \<^verbatim>\<open>QueryAddresses\<close> has returned.
\<close>

theorem getStats_counts:
  "GetStats rs =
     (length rs, length (filter (\<lambda>r. Status r = ''success'') rs),
      length (filter (\<lambda>r. Status r = ''error'') rs)) \<and>
   length (filter (\<lambda>r. Status r = ''success'') rs) + length (filter (\<lambda>r. Status r = ''error'') rs) +
     length (filter (\<lambda>r. Status r \<noteq> ''success'' \<and> Status r \<noteq> ''error'') rs) = length rs \<and>
   (\<forall>r. Status r \<noteq> ''success'' \<and> Status r \<noteq> ''error'' \<longrightarrow>
      GetStats (rs @ [r]) = (case GetStats rs of (n, succeeded, failed) \<Rightarrow> (n + 1, succeeded, failed))) \<and>
   (\<exists>s. (step [] addrs5)\<^sup>*\<^sup>* (start pool_one 1 False addrs5) s \<and> returned s \<and> cancelled s \<and>
        (case GetStats (results s) of (n, succeeded, failed) \<Rightarrow> succeeded + failed < n))"
proof (intro conjI allI impI)
  show "GetStats rs =
     (length rs, length (filter (\<lambda>r. Status r = ''success'') rs),
      length (filter (\<lambda>r. Status r = ''error'') rs))"
    by (rule GetStats_eq)
  show "length (filter (\<lambda>r. Status r = ''success'') rs) + length (filter (\<lambda>r. Status r = ''error'') rs) +
     length (filter (\<lambda>r. Status r \<noteq> ''success'' \<and> Status r \<noteq> ''error'') rs) = length rs"
    by (rule filter_partition3) simp
  show "GetStats (rs @ [r]) = (case GetStats rs of (n, succeeded, failed) \<Rightarrow> (n + 1, succeeded, failed))"
    if "Status r \<noteq> ''success'' \<and> Status r \<noteq> ''error''" for r
    using that by (simp add: GetStats_eq)
  have "cancelled run_final" by (simp add: run_final_def)
  with steps_to_run_final returned_run_final GetStats_run_final
  show "\<exists>s. (step [] addrs5)\<^sup>*\<^sup>* (start pool_one 1 False addrs5) s \<and> returned s \<and> cancelled s \<and>
        (case GetStats (results s) of (n, succeeded, failed) \<Rightarrow> succeeded + failed < n)"
    by (intro exI[of _ run_final]) simp
qed

theorem getStats_counts_witness:
  "Status (cancelled_result ''TRrDBUGkSCRjP37wcW2jEKBHU94mnDfKXr'') \<noteq> ''success'' \<and>
   Status (cancelled_result ''TRrDBUGkSCRjP37wcW2jEKBHU94mnDfKXr'') \<noteq> ''error'' \<and>
   GetStats (results run_final) = (5, 1, 0) \<and>
   GetStats (results run_final @ [cancelled_result ''TRrDBUGkSCRjP37wcW2jEKBHU94mnDfKXr'']) = (6, 1, 0)"
proof -
  note main = getStats_counts[of "results run_final"]
  have n: "Status (cancelled_result ''TRrDBUGkSCRjP37wcW2jEKBHU94mnDfKXr'') \<noteq> ''success'' \<and>
      Status (cancelled_result ''TRrDBUGkSCRjP37wcW2jEKBHU94mnDfKXr'') \<noteq> ''error''"
    by (simp add: cancelled_result_def)
  from main[THEN conjunct2, THEN conjunct2, THEN conjunct1, THEN spec, THEN mp, OF n]
  have "GetStats (results run_final @ [cancelled_result ''TRrDBUGkSCRjP37wcW2jEKBHU94mnDfKXr'']) = (6, 1, 0)"
    by (simp add: GetStats_run_final)
  with n GetStats_run_final show ?thesis by simp
qed

subsection \<open>Address codec: a valid address and its checksum\<close>

lemma sha_usdt_first:
  "Sum256 [65, 166, 20, 248, 3, 182, 253, 120, 9, 134, 164, 44, 120, 236, 156, 127, 119, 230, 222, 209, 60] =
   [58, 66, 81, 45, 212, 246, 78, 77, 157, 173, 61, 94, 106, 160, 236, 245, 90, 219, 216, 168, 89, 121, 19, 92, 242, 17, 186, 52, 114, 120, 208, 41]"
  by code_simp

lemma sha_usdt_second:
  "Sum256 [58, 66, 81, 45, 212, 246, 78, 77, 157, 173, 61, 94, 106, 160, 236, 245, 90, 219, 216, 168, 89, 121, 19, 92, 242, 17, 186, 52, 114, 120, 208, 41] =
   [113, 2, 119, 245, 216, 11, 23, 13, 144, 226, 236, 108, 82, 202, 163, 104, 188, 116, 185, 34, 110, 59, 239, 229, 192, 152, 37, 160, 238, 219, 251, 104]"
  by code_simp

lemma Validate_usdt: "ValidateAddress ''TR7NHqjeKQxGTCi8q8ZY4pL8otSzgjLj6t''"
  by (simp add: ValidateAddress_iff Decode_usdt sha_usdt_first sha_usdt_second)

lemma Validate_usdt_flipped: "\<not> ValidateAddress ''TR7NHqjeKQxGTCi8q8ZY4pL8otSzgjLj6s''"
  by (simp add: ValidateAddress_iff Decode_usdt_flipped sha_usdt_first sha_usdt_second)

text \<open>
  The contract address of the source validates; with its last checksum byte changed from
  245 to 244 it does not.
\<close>

theorem validate_iff_checksum_witness:
  "ValidateAddress ''TR7NHqjeKQxGTCi8q8ZY4pL8otSzgjLj6t'' \<and>
   Decode ''TR7NHqjeKQxGTCi8q8ZY4pL8otSzgjLj6s'' = (Decode ''TR7NHqjeKQxGTCi8q8ZY4pL8otSzgjLj6t'')[24 := 244] \<and>
   (244::byte) \<noteq> Decode ''TR7NHqjeKQxGTCi8q8ZY4pL8otSzgjLj6t'' ! 24 \<and>
   \<not> ValidateAddress ''TR7NHqjeKQxGTCi8q8ZY4pL8otSzgjLj6s'' \<and>
   \<not> set ''TXinvalid0000000000000000000000000'' \<subseteq> set alphabet \<and>
   \<not> ValidateAddress ''TXinvalid0000000000000000000000000''"
proof (intro conjI)
  note main = validate_iff_checksum[of "''TR7NHqjeKQxGTCi8q8ZY4pL8otSzgjLj6t''"]
  show v: "ValidateAddress ''TR7NHqjeKQxGTCi8q8ZY4pL8otSzgjLj6t''"
    by (rule Validate_usdt)
  show d: "Decode ''TR7NHqjeKQxGTCi8q8ZY4pL8otSzgjLj6s'' = (Decode ''TR7NHqjeKQxGTCi8q8ZY4pL8otSzgjLj6t'')[24 := 244]"
    by (simp add: Decode_usdt Decode_usdt_flipped)
  show n: "(244::byte) \<noteq> Decode ''TR7NHqjeKQxGTCi8q8ZY4pL8otSzgjLj6t'' ! 24"
    by (simp add: Decode_usdt)
  have "ValidateAddress ''TR7NHqjeKQxGTCi8q8ZY4pL8otSzgjLj6t'' \<and> (21::nat) \<le> 24 \<and> (24::nat) < 25 \<and>
      244 \<noteq> Decode ''TR7NHqjeKQxGTCi8q8ZY4pL8otSzgjLj6t'' ! 24 \<and>
      Decode ''TR7NHqjeKQxGTCi8q8ZY4pL8otSzgjLj6s'' = (Decode ''TR7NHqjeKQxGTCi8q8ZY4pL8otSzgjLj6t'')[24 := 244]"
    using v d n by simp
  with main[THEN conjunct2, THEN conjunct2, THEN spec, THEN spec, THEN spec, THEN mp]
  show "\<not> ValidateAddress ''TR7NHqjeKQxGTCi8q8ZY4pL8otSzgjLj6s''" .
  show b: "\<not> set ''TXinvalid0000000000000000000000000'' \<subseteq> set alphabet"
    by (simp add: alphabet_def)
  from validate_iff_checksum[of "''TXinvalid0000000000000000000000000''", THEN conjunct2, THEN conjunct1, THEN mp, OF b]
  show "\<not> ValidateAddress ''TXinvalid0000000000000000000000000''" .
qed

text \<open>
  Claim C9.  \<open>AddressToParameter\<close> and \<open>AddressToHex\<close> do not validate: whenever the decoding
  has at least 21 bytes both succeed and return the encoding of its leading bytes, and
  they fail exactly when it has fewer than 21 bytes.  There is an input of 25 decoded
  bytes with a wrong checksum, and an input whose decoding does not have 25 bytes, that
  \<open>ValidateAddress\<close> rejects and both accept.
\<close>

theorem encoders_skip_validation:
  "(21 \<le> length (Decode a) \<longrightarrow>
      AddressToParameter a = Inr (replicate 24 (CHR ''0'') @ EncodeToString (take 20 (drop 1 (Decode a)))) \<and>
      AddressToHex a = Inr (EncodeToString (take 21 (Decode a)))) \<and>
   ((\<exists>e. AddressToParameter a = Inl e) \<longleftrightarrow> length (Decode a) < 21) \<and>
   ((\<exists>e. AddressToHex a = Inl e) \<longleftrightarrow> length (Decode a) < 21) \<and>
   (\<exists>b. length (Decode b) = 25 \<and> \<not> ValidateAddress b \<and>
        (\<exists>r. AddressToParameter b = Inr r) \<and> (\<exists>r. AddressToHex b = Inr r)) \<and>
   (\<exists>b. length (Decode b) \<noteq> 25 \<and> \<not> ValidateAddress b \<and>
        (\<exists>r. AddressToParameter b = Inr r) \<and> (\<exists>r. AddressToHex b = Inr r))"
proof (intro conjI impI)
  assume "21 \<le> length (Decode a)"
  then show "AddressToParameter a =
      Inr (replicate 24 (CHR ''0'') @ EncodeToString (take 20 (drop 1 (Decode a))))"
    by (simp add: AddressToParameter_eq)
next
  assume "21 \<le> length (Decode a)"
  then show "AddressToHex a = Inr (EncodeToString (take 21 (Decode a)))"
    by (simp add: AddressToHex_eq)
next
  show "(\<exists>e. AddressToParameter a = Inl e) \<longleftrightarrow> length (Decode a) < 21"
    by (simp add: AddressToParameter_eq)
next
  show "(\<exists>e. AddressToHex a = Inl e) \<longleftrightarrow> length (Decode a) < 21"
    by (simp add: AddressToHex_eq)
next
  have "length (Decode ''TR7NHqjeKQxGTCi8q8ZY4pL8otSzgjLj6s'') = 25"
    by (simp add: Decode_usdt_flipped)
  moreover note Validate_usdt_flipped
  moreover have "\<exists>r. AddressToParameter ''TR7NHqjeKQxGTCi8q8ZY4pL8otSzgjLj6s'' = Inr r"
    by (simp add: AddressToParameter_eq Decode_usdt_flipped)
  moreover have "\<exists>r. AddressToHex ''TR7NHqjeKQxGTCi8q8ZY4pL8otSzgjLj6s'' = Inr r"
    by (simp add: AddressToHex_eq Decode_usdt_flipped)
  ultimately show "\<exists>b. length (Decode b) = 25 \<and> \<not> ValidateAddress b \<and>
        (\<exists>r. AddressToParameter b = Inr r) \<and> (\<exists>r. AddressToHex b = Inr r)"
    by blast
next
  have "length (Decode ''111111111111111111111'') \<noteq> 25"
    by (simp add: Decode_ones)
  moreover from this have "\<not> ValidateAddress ''111111111111111111111''"
    by (simp add: ValidateAddress_iff)
  moreover have "\<exists>r. AddressToParameter ''111111111111111111111'' = Inr r"
    by (simp add: AddressToParameter_eq Decode_ones)
  moreover have "\<exists>r. AddressToHex ''111111111111111111111'' = Inr r"
    by (simp add: AddressToHex_eq Decode_ones)
  ultimately show "\<exists>b. length (Decode b) \<noteq> 25 \<and> \<not> ValidateAddress b \<and>
        (\<exists>r. AddressToParameter b = Inr r) \<and> (\<exists>r. AddressToHex b = Inr r)"
    by blast
qed

theorem encoders_skip_validation_witness:
  "21 \<le> length (Decode ''TR7NHqjeKQxGTCi8q8ZY4pL8otSzgjLj6s'') \<and>
   \<not> ValidateAddress ''TR7NHqjeKQxGTCi8q8ZY4pL8otSzgjLj6s'' \<and>
   AddressToParameter ''TR7NHqjeKQxGTCi8q8ZY4pL8otSzgjLj6s'' =
     Inr ''000000000000000000000000a614f803b6fd780986a42c78ec9c7f77e6ded13c'' \<and>
   AddressToHex ''TR7NHqjeKQxGTCi8q8ZY4pL8otSzgjLj6s'' = Inr ''41a614f803b6fd780986a42c78ec9c7f77e6ded13c''"
proof -
  have l: "21 \<le> length (Decode ''TR7NHqjeKQxGTCi8q8ZY4pL8otSzgjLj6s'')"
    by (simp add: Decode_usdt_flipped)
  note both = encoders_skip_validation[of "''TR7NHqjeKQxGTCi8q8ZY4pL8otSzgjLj6s''",
      THEN conjunct1, THEN mp, OF l]
  have p: "replicate 24 (CHR ''0'') @
      EncodeToString (take 20 (drop 1 (Decode ''TR7NHqjeKQxGTCi8q8ZY4pL8otSzgjLj6s''))) =
      ''000000000000000000000000a614f803b6fd780986a42c78ec9c7f77e6ded13c''"
    by (simp add: Decode_usdt_flipped Encode_usdt20 zeros24)
  have h: "EncodeToString (take 21 (Decode ''TR7NHqjeKQxGTCi8q8ZY4pL8otSzgjLj6s'')) =
      ''41a614f803b6fd780986a42c78ec9c7f77e6ded13c''"
    by (simp add: Decode_usdt_flipped Encode_usdt21)
  from both[THEN conjunct1] have a: "AddressToParameter ''TR7NHqjeKQxGTCi8q8ZY4pL8otSzgjLj6s'' =
     Inr ''000000000000000000000000a614f803b6fd780986a42c78ec9c7f77e6ded13c''"
    unfolding p .
  from both[THEN conjunct2] have b: "AddressToHex ''TR7NHqjeKQxGTCi8q8ZY4pL8otSzgjLj6s'' =
     Inr ''41a614f803b6fd780986a42c78ec9c7f77e6ded13c''"
    unfolding h .
  from l Validate_usdt_flipped a b show ?thesis by (intro conjI)
qed

end
